theory Spec2Isabelle
  imports Main "HOL-Library.Char_ord" "HOL-Library.List_Lexorder"
begin

unbundle bit_operations_syntax

section \<open>The subnet calculator and the part of Python's ipaddress module it calls\<close>

text \<open>
  The script \<^verbatim>\<open>bin/subnet-calculator.py\<close> parses one base network and a list of
  exclusions with \<^verbatim>\<open>ipaddress.ip_network(s, strict=False)\<close>, subtracts every exclusion
  from the list of remaining networks with \<^verbatim>\<open>subnet_of\<close> and \<^verbatim>\<open>address_exclude\<close>, and
  prints the remaining networks as sorted strings. The functions of the standard library
  that the script reaches are embedded here after CPython 3.11/3.12's
  \<^verbatim>\<open>Lib/ipaddress.py\<close>, under their own names; exceptions are values of \<open>error\<close>.
\<close>

subsection \<open>Exceptions\<close>

datatype error =
    AddressValueError
  | NetmaskValueError
  | ValueError
  | TypeError
  | AssertionError
  | OverflowError
  | UnicodeEncodeError

subsection \<open>Strings\<close>

text \<open>\<^verbatim>\<open>s.split(sep)\<close> for a separator of one character: \<^verbatim>\<open>''.split('.') == ['']\<close>.\<close>

fun split :: "char \<Rightarrow> string \<Rightarrow> string list" where
  "split sep [] = [[]]"
| "split sep (c # cs) =
     (if c = sep then [] # split sep cs
      else (case split sep cs of [] \<Rightarrow> [[c]] | p # ps \<Rightarrow> (c # p) # ps))"

text \<open>\<^verbatim>\<open>sep.join(parts)\<close>.\<close>

fun join :: "string \<Rightarrow> string list \<Rightarrow> string" where
  "join sep [] = []"
| "join sep [p] = p"
| "join sep (p # q # ps) = p @ sep @ join sep (q # ps)"

text \<open>\<^verbatim>\<open>s.partition(sep)\<close>: the text before the first separator, whether there is one,
  and the text after it.\<close>

fun partition_str :: "char \<Rightarrow> string \<Rightarrow> string \<times> bool \<times> string" where
  "partition_str sep [] = ([], False, [])"
| "partition_str sep (c # cs) =
     (if c = sep then ([], True, cs)
      else (case partition_str sep cs of (a, found, b) \<Rightarrow> (c # a, found, b)))"

definition is_digit :: "char \<Rightarrow> bool" where
  "is_digit c \<longleftrightarrow> c \<in> set ''0123456789''"

text \<open>\<^verbatim>\<open>s.isascii() and s.isdigit()\<close>: false for the empty string.\<close>

definition isascii_isdigit :: "string \<Rightarrow> bool" where
  "isascii_isdigit s \<longleftrightarrow> s \<noteq> [] \<and> list_all is_digit s"

definition digit_val :: "char \<Rightarrow> nat" where
  "digit_val c = of_char c - 48"

text \<open>\<^verbatim>\<open>int(s, 10)\<close> on a string of ASCII digits.\<close>

definition int10 :: "string \<Rightarrow> nat" where
  "int10 s = foldl (\<lambda>acc c. 10 * acc + digit_val c) 0 s"

definition is_hex_digit :: "char \<Rightarrow> bool" where
  "is_hex_digit c \<longleftrightarrow> c \<in> set ''0123456789ABCDEFabcdef''"

definition hex_val :: "char \<Rightarrow> nat" where
  "hex_val c =
     (if is_digit c then of_char c - 48
      else if c \<in> set ''ABCDEF'' then of_char c - 55
      else of_char c - 87)"

text \<open>\<^verbatim>\<open>int(s, 16)\<close> on a string of hexadecimal digits.\<close>

definition int16 :: "string \<Rightarrow> nat" where
  "int16 s = foldl (\<lambda>acc c. 16 * acc + hex_val c) 0 s"

text \<open>\<^verbatim>\<open>str(n)\<close> and \<^verbatim>\<open>'%d' % n\<close> for a natural number.\<close>

fun str_nat :: "nat \<Rightarrow> string" where
  "str_nat n =
     (if n < 10 then [''0123456789'' ! n]
      else str_nat (n div 10) @ [''0123456789'' ! (n mod 10)])"

declare str_nat.simps [simp del]

text \<open>\<^verbatim>\<open>'%x' % n\<close>: lower-case hexadecimal without leading zeros.\<close>

fun hex_nat :: "nat \<Rightarrow> string" where
  "hex_nat n =
     (if n < 16 then [''0123456789abcdef'' ! n]
      else hex_nat (n div 16) @ [''0123456789abcdef'' ! (n mod 16)])"

declare hex_nat.simps [simp del]

text \<open>Running a fallible function over a list, stopping at the first exception.\<close>

fun traverse :: "('a \<Rightarrow> error + 'b) \<Rightarrow> 'a list \<Rightarrow> error + 'b list" where
  "traverse f [] = Inr []"
| "traverse f (x # xs) =
     (case f x of
        Inl e \<Rightarrow> Inl e
      | Inr y \<Rightarrow> (case traverse f xs of Inl e \<Rightarrow> Inl e | Inr ys \<Rightarrow> Inr (y # ys)))"

subsection \<open>Network objects\<close>

datatype ip_version = IPv4 | IPv6

text \<open>
  An \<^verbatim>\<open>IPv4Network\<close> or \<^verbatim>\<open>IPv6Network\<close> object: its class, the integer and the scope
  id of its \<^verbatim>\<open>network_address\<close> (IPv4 addresses have no scope id), and \<^verbatim>\<open>_prefixlen\<close>.
  The netmask is a function of the prefix length.
\<close>

record network =
  version :: ip_version
  ip :: nat
  scope_id :: "string option"
  prefixlen :: nat

definition max_prefixlen :: "ip_version \<Rightarrow> nat" where
  "max_prefixlen v = (case v of IPv4 \<Rightarrow> 32 | IPv6 \<Rightarrow> 128)"

definition ALL_ONES :: "ip_version \<Rightarrow> nat" where
  "ALL_ONES v = 2 ^ max_prefixlen v - 1"

definition ip_int_from_prefix :: "ip_version \<Rightarrow> nat \<Rightarrow> nat" where
  "ip_int_from_prefix v p = ALL_ONES v XOR drop_bit p (ALL_ONES v)"

definition netmask :: "network \<Rightarrow> nat" where
  "netmask n = ip_int_from_prefix (version n) (prefixlen n)"

definition hostmask :: "network \<Rightarrow> nat" where
  "hostmask n = netmask n XOR ALL_ONES (version n)"

text \<open>The integer of \<^verbatim>\<open>broadcast_address\<close>, an address object without scope id.\<close>

definition broadcast_address :: "network \<Rightarrow> nat" where
  "broadcast_address n = ip n OR hostmask n"

subsection \<open>Prefix lengths and netmasks\<close>

text \<open>\<^verbatim>\<open>n.bit_length()\<close> for a non-negative integer.\<close>

fun bit_length :: "nat \<Rightarrow> nat" where
  "bit_length n = (if n = 0 then 0 else Suc (bit_length (n div 2)))"

declare bit_length.simps [simp del]

text \<open>\<^verbatim>\<open>_count_righthand_zero_bits(number, bits)\<close>.\<close>

definition count_righthand_zero_bits :: "nat \<Rightarrow> nat \<Rightarrow> nat" where
  "count_righthand_zero_bits number bits =
     (if number = 0 then bits
      else min bits (bit_length (nat (NOT (int number) AND (int number - 1)))))"

text \<open>\<^verbatim>\<open>_prefix_from_ip_int\<close>: the prefix length of a netmask given as an integer;
  \<^verbatim>\<open>ValueError\<close> when zeroes and ones are mixed.\<close>

definition prefix_from_ip_int :: "ip_version \<Rightarrow> nat \<Rightarrow> error + nat" where
  "prefix_from_ip_int v ip_int =
     (let trailing_zeroes = count_righthand_zero_bits ip_int (max_prefixlen v);
          plen = max_prefixlen v - trailing_zeroes;
          leading_ones = drop_bit trailing_zeroes ip_int;
          all_ones = push_bit plen 1 - 1
      in if leading_ones \<noteq> all_ones then Inl ValueError else Inr plen)"

text \<open>The default of \<^verbatim>\<open>sys.get_int_max_str_digits()\<close>: \<^verbatim>\<open>int(s)\<close> raises
  \<^verbatim>\<open>ValueError\<close> on a longer string of digits.\<close>

definition int_max_str_digits :: nat where
  "int_max_str_digits = 4300"

text \<open>\<^verbatim>\<open>_prefix_from_prefix_string\<close>.\<close>

definition prefix_from_prefix_string :: "ip_version \<Rightarrow> string \<Rightarrow> error + nat" where
  "prefix_from_prefix_string v prefixlen_str =
     (if \<not> isascii_isdigit prefixlen_str then Inl NetmaskValueError
      else if length prefixlen_str > int_max_str_digits then Inl NetmaskValueError
      else let plen = int10 prefixlen_str
           in if \<not> plen \<le> max_prefixlen v then Inl NetmaskValueError
              else Inr plen)"

subsection \<open>IPv4 addresses\<close>

text \<open>\<^verbatim>\<open>_BaseV4._parse_octet\<close>.\<close>

definition parse_octet :: "string \<Rightarrow> error + nat" where
  "parse_octet octet_str =
     (if octet_str = [] then Inl ValueError
      else if \<not> isascii_isdigit octet_str then Inl ValueError
      else if length octet_str > 3 then Inl ValueError
      else if octet_str \<noteq> ''0'' \<and> hd octet_str = CHR ''0'' then Inl ValueError
      else let octet_int = int10 octet_str
           in if octet_int > 255 then Inl ValueError else Inr octet_int)"

text \<open>\<^verbatim>\<open>int.from_bytes(bs, 'big')\<close>.\<close>

definition from_bytes_big :: "nat list \<Rightarrow> nat" where
  "from_bytes_big bs = foldl (\<lambda>acc b. 256 * acc + b) 0 bs"

text \<open>\<^verbatim>\<open>_BaseV4._ip_int_from_string\<close>.\<close>

definition v4_ip_int_from_string :: "string \<Rightarrow> error + nat" where
  "v4_ip_int_from_string ip_str =
     (if ip_str = [] then Inl AddressValueError
      else let octets = split CHR ''.'' ip_str
           in if length octets \<noteq> 4 then Inl AddressValueError
              else (case traverse parse_octet octets of
                      Inl e \<Rightarrow> Inl AddressValueError
                    | Inr bs \<Rightarrow> Inr (from_bytes_big bs)))"

text \<open>\<^verbatim>\<open>IPv4Address(addr_str)._ip\<close> for a string argument.\<close>

definition IPv4Address :: "string \<Rightarrow> error + nat" where
  "IPv4Address addr_str =
     (if CHR ''/'' \<in> set addr_str then Inl AddressValueError
      else v4_ip_int_from_string addr_str)"

text \<open>\<^verbatim>\<open>_prefix_from_ip_string\<close>, which only \<^verbatim>\<open>_BaseV4._make_netmask\<close> calls: a
  netmask or a hostmask in dotted-quad form.\<close>

definition prefix_from_ip_string :: "string \<Rightarrow> error + nat" where
  "prefix_from_ip_string ip_str =
     (case v4_ip_int_from_string ip_str of
        Inl e \<Rightarrow> Inl NetmaskValueError
      | Inr ip_int \<Rightarrow>
          (case prefix_from_ip_int IPv4 ip_int of
             Inr p \<Rightarrow> Inr p
           | Inl e \<Rightarrow>
               (case prefix_from_ip_int IPv4 (ip_int XOR ALL_ONES IPv4) of
                  Inr p \<Rightarrow> Inr p
                | Inl e' \<Rightarrow> Inl NetmaskValueError)))"

text \<open>\<^verbatim>\<open>_make_netmask(arg)\<close> returns the netmask and the prefix length; the model
  returns the prefix length. The argument is a string (the text after the slash) or an
  integer.\<close>

datatype mask_arg = MaskStr string | MaskInt nat

definition make_netmask :: "ip_version \<Rightarrow> mask_arg \<Rightarrow> error + nat" where
  "make_netmask v arg =
     (case arg of
        MaskInt plen \<Rightarrow>
          (if \<not> plen \<le> max_prefixlen v then Inl NetmaskValueError else Inr plen)
      | MaskStr s \<Rightarrow>
          (case v of
             IPv4 \<Rightarrow>
               (case prefix_from_prefix_string IPv4 s of
                  Inr p \<Rightarrow> Inr p
                | Inl e \<Rightarrow> prefix_from_ip_string s)
           | IPv6 \<Rightarrow> prefix_from_prefix_string IPv6 s))"

text \<open>\<^verbatim>\<open>_split_addr_prefix\<close> on a string: \<^verbatim>\<open>_split_optional_netmask\<close>, then the
  default mask \<^verbatim>\<open>_max_prefixlen\<close> when there is no slash.\<close>

definition split_addr_prefix :: "ip_version \<Rightarrow> string \<Rightarrow> error + string \<times> mask_arg" where
  "split_addr_prefix v address =
     (let addr = split CHR ''/'' address
      in if length addr > 2 then Inl AddressValueError
         else if length addr > 1 then Inr (addr ! 0, MaskStr (addr ! 1))
         else Inr (addr ! 0, MaskInt (max_prefixlen v)))"

text \<open>The end of \<^verbatim>\<open>IPv4Network.__init__\<close> and \<^verbatim>\<open>IPv6Network.__init__\<close>: host bits
  are an error when \<^verbatim>\<open>strict\<close>, and are cleared otherwise, by a new address object
  built from the integer (so without scope id).\<close>

definition finish_network ::
  "ip_version \<Rightarrow> nat \<Rightarrow> string option \<Rightarrow> nat \<Rightarrow> bool \<Rightarrow> error + network" where
  "finish_network v packed scope plen strict =
     (let nmask = ip_int_from_prefix v plen
      in if packed AND nmask \<noteq> packed then
           (if strict then Inl ValueError
            else Inr \<lparr>version = v, ip = packed AND nmask, scope_id = None, prefixlen = plen\<rparr>)
         else Inr \<lparr>version = v, ip = packed, scope_id = scope, prefixlen = plen\<rparr>)"

text \<open>\<^verbatim>\<open>IPv4Network(address, strict)\<close> for a string.\<close>

definition IPv4Network :: "string \<Rightarrow> bool \<Rightarrow> error + network" where
  "IPv4Network address strict =
     (case split_addr_prefix IPv4 address of
        Inl e \<Rightarrow> Inl e
      | Inr (addr, marg) \<Rightarrow>
          (case IPv4Address addr of
             Inl e \<Rightarrow> Inl e
           | Inr packed \<Rightarrow>
               (case make_netmask IPv4 marg of
                  Inl e \<Rightarrow> Inl e
                | Inr plen \<Rightarrow> finish_network IPv4 packed None plen strict)))"

subsection \<open>IPv6 addresses\<close>

text \<open>\<^verbatim>\<open>_BaseV6._parse_hextet\<close>; \<^verbatim>\<open>int('', 16)\<close> raises \<^verbatim>\<open>ValueError\<close>.\<close>

definition parse_hextet :: "string \<Rightarrow> error + nat" where
  "parse_hextet hextet_str =
     (if \<not> list_all is_hex_digit hextet_str then Inl ValueError
      else if length hextet_str > 4 then Inl ValueError
      else if hextet_str = [] then Inl ValueError
      else Inr (int16 hextet_str))"

text \<open>An IPv4-style last part is replaced by its two hextets.\<close>

definition ipv4_suffix :: "string list \<Rightarrow> error + string list" where
  "ipv4_suffix parts =
     (if CHR ''.'' \<in> set (last parts) then
        (case IPv4Address (last parts) of
           Inl e \<Rightarrow> Inl AddressValueError
         | Inr ipv4_int \<Rightarrow>
             Inr (butlast parts @ [hex_nat (drop_bit 16 ipv4_int AND 0xFFFF),
                                   hex_nat (ipv4_int AND 0xFFFF)]))
      else Inr parts)"

text \<open>The search for one empty inner part, the place of \<^verbatim>\<open>::\<close>.\<close>

definition find_skip_index :: "string list \<Rightarrow> error + nat option" where
  "find_skip_index parts =
     foldl (\<lambda>acc i. case acc of
                      Inl e \<Rightarrow> Inl e
                    | Inr skip_index \<Rightarrow>
                        (if parts ! i = [] then
                           (if skip_index \<noteq> None then Inl AddressValueError else Inr (Some i))
                         else Inr skip_index))
       (Inr None) [1..<length parts - 1]"

text \<open>How many parts stand before the skipped run, how many after it, and how many
  hextets the run stands for.\<close>

definition hextet_counts :: "string list \<Rightarrow> nat option \<Rightarrow> error + nat \<times> nat \<times> nat" where
  "hextet_counts parts skip_index =
     (case skip_index of
        Some i \<Rightarrow>
          (let hi0 = i;
               lo0 = length parts - i - 1;
               hi = (if parts ! 0 = [] then hi0 - 1 else hi0);
               lo = (if last parts = [] then lo0 - 1 else lo0)
           in if parts ! 0 = [] \<and> hi \<noteq> 0 then Inl AddressValueError
              else if last parts = [] \<and> lo \<noteq> 0 then Inl AddressValueError
              else if 8 < hi + lo + 1 then Inl AddressValueError
              else Inr (hi, lo, 8 - (hi + lo)))
      | None \<Rightarrow>
          (if length parts \<noteq> 8 then Inl AddressValueError
           else if parts ! 0 = [] then Inl AddressValueError
           else if last parts = [] then Inl AddressValueError
           else Inr (length parts, 0, 0)))"

definition shift_in_hextets :: "nat \<Rightarrow> nat list \<Rightarrow> nat" where
  "shift_in_hextets ip_int hs = foldl (\<lambda>acc h. push_bit 16 acc OR h) ip_int hs"

text \<open>\<^verbatim>\<open>_BaseV6._ip_int_from_string\<close>.\<close>

definition v6_ip_int_from_string :: "string \<Rightarrow> error + nat" where
  "v6_ip_int_from_string ip_str =
     (if ip_str = [] then Inl AddressValueError
      else if length (split CHR '':'' ip_str) < 3 then Inl AddressValueError
      else
        (case ipv4_suffix (split CHR '':'' ip_str) of
           Inl e \<Rightarrow> Inl e
         | Inr parts \<Rightarrow>
             (if length parts > 9 then Inl AddressValueError
              else
                (case find_skip_index parts of
                   Inl e \<Rightarrow> Inl e
                 | Inr skip_index \<Rightarrow>
                     (case hextet_counts parts skip_index of
                        Inl e \<Rightarrow> Inl e
                      | Inr (parts_hi, parts_lo, parts_skipped) \<Rightarrow>
                          (case traverse parse_hextet (take parts_hi parts) of
                             Inl e \<Rightarrow> Inl AddressValueError
                           | Inr his \<Rightarrow>
                               (case traverse parse_hextet
                                       (drop (length parts - parts_lo) parts) of
                                  Inl e \<Rightarrow> Inl AddressValueError
                                | Inr los \<Rightarrow>
                                    Inr (shift_in_hextets
                                           (push_bit (16 * parts_skipped)
                                              (shift_in_hextets 0 his)) los))))))))"

text \<open>\<^verbatim>\<open>_split_scope_id\<close>.\<close>

definition split_scope_id :: "string \<Rightarrow> error + string \<times> string option" where
  "split_scope_id ip_str =
     (case partition_str CHR ''%'' ip_str of
        (addr, sep, scope) \<Rightarrow>
          (if \<not> sep then Inr (addr, None)
           else if scope = [] \<or> CHR ''%'' \<in> set scope then Inl AddressValueError
           else Inr (addr, Some scope)))"

text \<open>\<^verbatim>\<open>IPv6Address(addr_str)\<close> for a string argument: \<^verbatim>\<open>_ip\<close> and \<^verbatim>\<open>_scope_id\<close>.\<close>

definition IPv6Address :: "string \<Rightarrow> error + nat \<times> string option" where
  "IPv6Address addr_str =
     (if CHR ''/'' \<in> set addr_str then Inl AddressValueError
      else
        (case split_scope_id addr_str of
           Inl e \<Rightarrow> Inl e
         | Inr (addr, scope) \<Rightarrow>
             (case v6_ip_int_from_string addr of
                Inl e \<Rightarrow> Inl e
              | Inr ip_int \<Rightarrow> Inr (ip_int, scope))))"

text \<open>\<^verbatim>\<open>IPv6Network(address, strict)\<close> for a string.\<close>

definition IPv6Network :: "string \<Rightarrow> bool \<Rightarrow> error + network" where
  "IPv6Network address strict =
     (case split_addr_prefix IPv6 address of
        Inl e \<Rightarrow> Inl e
      | Inr (addr, marg) \<Rightarrow>
          (case IPv6Address addr of
             Inl e \<Rightarrow> Inl e
           | Inr (packed, scope) \<Rightarrow>
               (case make_netmask IPv6 marg of
                  Inl e \<Rightarrow> Inl e
                | Inr plen \<Rightarrow> finish_network IPv6 packed scope plen strict)))"

subsection \<open>Constructors\<close>

text \<open>\<^verbatim>\<open>other.__class__(s)\<close>: the constructor of the network's own class, strict by
  default.\<close>

definition network_of_class :: "ip_version \<Rightarrow> string \<Rightarrow> bool \<Rightarrow> error + network" where
  "network_of_class v address strict =
     (case v of IPv4 \<Rightarrow> IPv4Network address strict | IPv6 \<Rightarrow> IPv6Network address strict)"

text \<open>\<^verbatim>\<open>self.__class__((new_addr, new_prefixlen))\<close>: the constructor on a pair of
  integers, strict; \<^verbatim>\<open>_check_int_address\<close> bounds the address.\<close>

definition network_from_tuple :: "ip_version \<Rightarrow> nat \<Rightarrow> nat \<Rightarrow> error + network" where
  "network_from_tuple v address plen =
     (if address > ALL_ONES v then Inl AddressValueError
      else
        (case make_netmask v (MaskInt plen) of
           Inl e \<Rightarrow> Inl e
         | Inr p \<Rightarrow> finish_network v address None p True))"

text \<open>\<^verbatim>\<open>ipaddress.ip_network(address, strict)\<close>: IPv4 first, then IPv6; only
  \<^verbatim>\<open>AddressValueError\<close> and \<^verbatim>\<open>NetmaskValueError\<close> lead to the next attempt.\<close>

definition ip_network :: "string \<Rightarrow> bool \<Rightarrow> error + network" where
  "ip_network address strict =
     (case IPv4Network address strict of
        Inr n \<Rightarrow> Inr n
      | Inl e4 \<Rightarrow>
          (if e4 \<noteq> AddressValueError \<and> e4 \<noteq> NetmaskValueError then Inl e4
           else
             (case IPv6Network address strict of
                Inr n \<Rightarrow> Inr n
              | Inl e6 \<Rightarrow>
                  (if e6 \<noteq> AddressValueError \<and> e6 \<noteq> NetmaskValueError then Inl e6
                   else Inl ValueError))))"

subsection \<open>Text of a network\<close>

text \<open>\<^verbatim>\<open>_BaseV4._string_from_ip_int\<close>; \<^verbatim>\<open>to_bytes(4, 'big')\<close> raises
  \<^verbatim>\<open>OverflowError\<close> on an integer of more than 32 bits.\<close>

definition to_bytes4 :: "nat \<Rightarrow> nat list" where
  "to_bytes4 ip_int =
     [drop_bit 24 ip_int mod 256, drop_bit 16 ip_int mod 256, drop_bit 8 ip_int mod 256,
      ip_int mod 256]"

definition v4_string_from_ip_int :: "nat \<Rightarrow> error + string" where
  "v4_string_from_ip_int ip_int =
     (if ip_int \<ge> 2 ^ 32 then Inl OverflowError
      else Inr (join ''.'' (map str_nat (to_bytes4 ip_int))))"

text \<open>The scan of \<^verbatim>\<open>_compress_hextets\<close> for the longest run of \<^verbatim>\<open>'0'\<close>: the state is
  \<^verbatim>\<open>(best_doublecolon_start, best_doublecolon_len, doublecolon_start,
  doublecolon_len)\<close>.\<close>

definition compress_scan :: "string list \<Rightarrow> int \<times> nat \<times> int \<times> nat" where
  "compress_scan hextets =
     foldl (\<lambda>(best_start, best_len, start, len) (index, hextet).
              if hextet = ''0'' then
                (let len' = len + 1;
                     start' = (if start = - 1 then int index else start)
                 in if len' > best_len then (start', len', start', len')
                    else (best_start, best_len, start', len'))
              else (best_start, best_len, - 1, 0))
       (- 1, 0, - 1, 0) (List.enumerate 0 hextets)"

text \<open>\<^verbatim>\<open>_BaseV6._compress_hextets\<close>.\<close>

definition compress_hextets :: "string list \<Rightarrow> string list" where
  "compress_hextets hextets =
     (case compress_scan hextets of
        (best_start, best_len, start, len) \<Rightarrow>
          (if best_len > 1 then
             (let best_end = nat best_start + best_len;
                  hextets1 = (if best_end = length hextets then hextets @ [[]] else hextets);
                  hextets2 = take (nat best_start) hextets1 @ [[]] @ drop best_end hextets1
              in if best_start = 0 then [] # hextets2 else hextets2)
           else hextets))"

text \<open>\<^verbatim>\<open>_BaseV6._string_from_ip_int\<close>: the eight groups of four hexadecimal digits of
  \<^verbatim>\<open>'%032x' % ip_int\<close>, each printed with \<^verbatim>\<open>'%x'\<close>, then compressed.\<close>

definition v6_string_from_ip_int :: "nat \<Rightarrow> error + string" where
  "v6_string_from_ip_int ip_int =
     (if ip_int > ALL_ONES IPv6 then Inl ValueError
      else Inr (join '':'' (compress_hextets
                  (map (\<lambda>k. hex_nat (drop_bit k ip_int mod 2 ^ 16))
                     [112, 96, 80, 64, 48, 32, 16, 0]))))"

text \<open>\<^verbatim>\<open>str(self.network_address)\<close>; an IPv6 address with a scope id prints it after a
  percent sign.\<close>

definition address_str :: "network \<Rightarrow> error + string" where
  "address_str n =
     (case version n of
        IPv4 \<Rightarrow> v4_string_from_ip_int (ip n)
      | IPv6 \<Rightarrow>
          (case v6_string_from_ip_int (ip n) of
             Inl e \<Rightarrow> Inl e
           | Inr ip_str \<Rightarrow>
               (case scope_id n of
                  None \<Rightarrow> Inr ip_str
                | Some scope \<Rightarrow>
                    if scope \<noteq> [] then Inr (ip_str @ ''%'' @ scope) else Inr ip_str)))"

text \<open>\<^verbatim>\<open>_BaseNetwork.__str__\<close>: \<^verbatim>\<open>'%s/%d' % (self.network_address, self.prefixlen)\<close>.\<close>

definition str_network :: "network \<Rightarrow> error + string" where
  "str_network n =
     (case address_str n of
        Inl e \<Rightarrow> Inl e
      | Inr a \<Rightarrow> Inr (a @ ''/'' @ str_nat (prefixlen n)))"

subsection \<open>Comparisons\<close>

text \<open>
  \<^verbatim>\<open>_BaseNetwork.__eq__\<close>: same version, equal network addresses, equal netmasks.
  Equality of addresses compares the integers and, for IPv6, the scope ids.
\<close>

definition network_eq :: "network \<Rightarrow> network \<Rightarrow> bool" where
  "network_eq a b \<longleftrightarrow>
     version a = version b \<and> (ip a = ip b \<and> scope_id a = scope_id b) \<and> netmask a = netmask b"

text \<open>
  \<^verbatim>\<open>a.subnet_of(b)\<close>, that is \<^verbatim>\<open>_is_subnet_of(a, b)\<close>:
  \<^verbatim>\<open>b.network_address <= a.network_address and b.broadcast_address >= a.broadcast_address\<close>.
  The address class gets \<^verbatim>\<open><=\<close> and \<^verbatim>\<open>>=\<close> from \<^verbatim>\<open>functools.total_ordering\<close>:
  \<^verbatim>\<open>x <= y\<close> is \<^verbatim>\<open>x < y or x == y\<close> and \<^verbatim>\<open>x >= y\<close> is \<^verbatim>\<open>not x < y\<close>, where \<^verbatim>\<open><\<close>
  compares the integers and \<^verbatim>\<open>==\<close> also the scope ids.
\<close>

definition subnet_of :: "network \<Rightarrow> network \<Rightarrow> error + bool" where
  "subnet_of a b =
     (if version a \<noteq> version b then Inl TypeError
      else Inr ((ip b < ip a \<or> (ip b = ip a \<and> scope_id b = scope_id a))
                \<and> \<not> broadcast_address b < broadcast_address a))"

subsection \<open>Subnets\<close>

text \<open>\<^verbatim>\<open>list(range(start, stop, step))\<close> for non-negative arguments.\<close>

function range_from :: "nat \<Rightarrow> nat \<Rightarrow> nat \<Rightarrow> nat list" where
  "range_from start stop step =
     (if 0 < step \<and> start < stop then start # range_from (start + step) stop step else [])"
  by pat_completeness auto
termination
  by (relation "measure (\<lambda>(start, stop, step). stop - start)") auto

declare range_from.simps [simp del]

definition py_range :: "nat \<Rightarrow> nat \<Rightarrow> nat \<Rightarrow> error + nat list" where
  "py_range start stop step =
     (if step = 0 then Inl ValueError else Inr (range_from start stop step))"

text \<open>\<^verbatim>\<open>list(self.subnets())\<close> with the default \<^verbatim>\<open>prefixlen_diff=1\<close>.\<close>

definition subnets :: "network \<Rightarrow> error + network list" where
  "subnets n =
     (if prefixlen n = max_prefixlen (version n) then Inr [n]
      else
        (let new_prefixlen = prefixlen n + 1
         in if new_prefixlen > max_prefixlen (version n) then Inl ValueError
            else
              (case py_range (ip n) (broadcast_address n + 1) (drop_bit 1 (hostmask n + 1)) of
                 Inl e \<Rightarrow> Inl e
               | Inr addrs \<Rightarrow>
                   traverse (\<lambda>new_addr. network_from_tuple (version n) new_addr new_prefixlen)
                     addrs)))"

text \<open>\<^verbatim>\<open>s1, s2 = ...\<close>: unpacking raises \<^verbatim>\<open>ValueError\<close> unless there are exactly two
  values.\<close>

definition unpack2 :: "error + 'a list \<Rightarrow> error + 'a \<times> 'a" where
  "unpack2 r =
     (case r of
        Inl e \<Rightarrow> Inl e
      | Inr xs \<Rightarrow> (if length xs = 2 then Inr (xs ! 0, xs ! 1) else Inl ValueError))"

lemma traverse_Inr:
  "traverse f xs = Inr ys \<Longrightarrow> list_all2 (\<lambda>x y. f x = Inr y) xs ys"
  by (induction xs arbitrary: ys) (auto split: sum.splits)

lemma finish_network_fields:
  assumes "finish_network v packed scope plen strict = Inr n"
  shows "version n = v" and "prefixlen n = plen"
  using assms by (auto simp: finish_network_def Let_def split: if_splits)

lemma network_from_tuple_fields:
  assumes "network_from_tuple v a p = Inr n"
  shows "version n = v" and "prefixlen n = p"
  using assms
  by (auto simp: network_from_tuple_def make_netmask_def
           split: if_splits sum.splits dest: finish_network_fields)

lemma unpack2_subnets:
  assumes "unpack2 (subnets s) = Inr (t1, t2)"
  shows "prefixlen s < max_prefixlen (version s)"
    and "prefixlen t1 = Suc (prefixlen s)" and "prefixlen t2 = Suc (prefixlen s)"
    and "version t1 = version s" and "version t2 = version s"
proof -
  from assms obtain xs where xs: "subnets s = Inr xs" "length xs = 2" "t1 = xs ! 0" "t2 = xs ! 1"
    by (auto simp: unpack2_def split: sum.splits if_splits)
  from xs(1,2) have ne: "prefixlen s \<noteq> max_prefixlen (version s)"
    by (auto simp: subnets_def)
  with xs(1) show "prefixlen s < max_prefixlen (version s)"
    by (auto simp: subnets_def Let_def split: if_splits)
  from xs(1) ne obtain addrs where
    "traverse (\<lambda>a. network_from_tuple (version s) a (prefixlen s + 1)) addrs = Inr xs"
    by (auto simp: subnets_def Let_def split: if_splits sum.splits)
  then have "list_all2 (\<lambda>a y. network_from_tuple (version s) a (prefixlen s + 1) = Inr y) addrs xs"
    by (rule traverse_Inr)
  then have ex: "\<exists>a. network_from_tuple (version s) a (prefixlen s + 1) = Inr (xs ! i)"
    if "i < length xs" for i
    using that list_all2_nthD2 by fastforce
  have all: "version y = version s \<and> prefixlen y = Suc (prefixlen s)" if "y \<in> set xs" for y
  proof -
    from that obtain i where "i < length xs" "y = xs ! i"
      by (auto simp: in_set_conv_nth)
    with ex obtain a where "network_from_tuple (version s) a (prefixlen s + 1) = Inr y"
      by blast
    from network_from_tuple_fields[OF this] show ?thesis by simp
  qed
  from xs(2,3,4) have "t1 \<in> set xs" "t2 \<in> set xs" by auto
  with all show "prefixlen t1 = Suc (prefixlen s)" "prefixlen t2 = Suc (prefixlen s)"
    "version t1 = version s" "version t2 = version s" by auto
qed

subsection \<open>Exclusion of a subnet\<close>

text \<open>
  The \<^verbatim>\<open>while\<close> loop of \<^verbatim>\<open>address_exclude\<close> and the test after it. The generator's
  values are collected by \<^verbatim>\<open>list(...)\<close> in the script, so an exception anywhere loses
  them all.
\<close>

function exclude_loop :: "network \<Rightarrow> network \<Rightarrow> network \<Rightarrow> error + network list" where
  "exclude_loop s1 s2 other =
     (if \<not> network_eq s1 other \<and> \<not> network_eq s2 other then
        (case subnet_of other s1 of
           Inl e \<Rightarrow> Inl e
         | Inr in1 \<Rightarrow>
             if in1 then
               (case unpack2 (subnets s1) of
                  Inl e \<Rightarrow> Inl e
                | Inr (t1, t2) \<Rightarrow>
                    (case exclude_loop t1 t2 other of
                       Inl e \<Rightarrow> Inl e
                     | Inr ys \<Rightarrow> Inr (s2 # ys)))
             else
               (case subnet_of other s2 of
                  Inl e \<Rightarrow> Inl e
                | Inr in2 \<Rightarrow>
                    if in2 then
                      (case unpack2 (subnets s2) of
                         Inl e \<Rightarrow> Inl e
                       | Inr (t1, t2) \<Rightarrow>
                           (case exclude_loop t1 t2 other of
                              Inl e \<Rightarrow> Inl e
                            | Inr ys \<Rightarrow> Inr (s1 # ys)))
                    else Inl AssertionError))
      else if network_eq s1 other then Inr [s2]
      else if network_eq s2 other then Inr [s1]
      else Inl AssertionError)"
  by pat_completeness auto
termination
proof (relation "measure (\<lambda>(s1, s2, other).
         max (max_prefixlen (version s1) - prefixlen s1) (max_prefixlen (version s2) - prefixlen s2))")
  show "wf (measure (\<lambda>(s1, s2, other).
         max (max_prefixlen (version s1) - prefixlen s1) (max_prefixlen (version s2) - prefixlen s2)))"
    by simp
next
  fix s1 s2 other :: network and x2 y1 y2
  assume "unpack2 (subnets s1) = Inr x2" "(y1, y2) = x2"
  then have "unpack2 (subnets s1) = Inr (y1, y2)" by simp
  from unpack2_subnets[OF this]
  show "((y1, y2, other), s1, s2, other) \<in> measure (\<lambda>(s1, s2, other).
         max (max_prefixlen (version s1) - prefixlen s1) (max_prefixlen (version s2) - prefixlen s2))"
    by simp
next
  fix s1 s2 other :: network and x2 y1 y2
  assume "unpack2 (subnets s2) = Inr x2" "(y1, y2) = x2"
  then have "unpack2 (subnets s2) = Inr (y1, y2)" by simp
  from unpack2_subnets[OF this]
  show "((y1, y2, other), s1, s2, other) \<in> measure (\<lambda>(s1, s2, other).
         max (max_prefixlen (version s1) - prefixlen s1) (max_prefixlen (version s2) - prefixlen s2))"
    by simp
qed

declare exclude_loop.simps [simp del]

text \<open>\<^verbatim>\<open>list(self.address_exclude(other))\<close>. Before the loop, \<^verbatim>\<open>other\<close> is built again
  from its own text by the constructor of its class.\<close>

definition address_exclude :: "network \<Rightarrow> network \<Rightarrow> error + network list" where
  "address_exclude self other =
     (if \<not> version self = version other then Inl TypeError
      else
        (case subnet_of other self of
           Inl e \<Rightarrow> Inl e
         | Inr within \<Rightarrow>
             if \<not> within then Inl ValueError
             else if network_eq other self then Inr []
             else
               (case str_network other of
                  Inl e \<Rightarrow> Inl e
                | Inr text \<Rightarrow>
                    (case network_of_class (version other) text True of
                       Inl e \<Rightarrow> Inl e
                     | Inr other' \<Rightarrow>
                         (case unpack2 (subnets self) of
                            Inl e \<Rightarrow> Inl e
                          | Inr (s1, s2) \<Rightarrow> exclude_loop s1 s2 other')))))"

section \<open>The script\<close>

text \<open>Lines 22 to 27: exclusions that do not parse are skipped.\<close>

fun parse_exclusions :: "string list \<Rightarrow> network list" where
  "parse_exclusions [] = []"
| "parse_exclusions (exc # exclusions) =
     (case ip_network exc False of
        Inl e \<Rightarrow> parse_exclusions exclusions
      | Inr n \<Rightarrow> n # parse_exclusions exclusions)"

text \<open>Lines 36 to 47, the body of the inner loop: what one remaining network
  contributes to \<^verbatim>\<open>new_remaining\<close> for one exclusion. Any exception keeps the network.\<close>

definition cut_network :: "network \<Rightarrow> network \<Rightarrow> network list" where
  "cut_network excluded network =
     (case subnet_of excluded network of
        Inl e \<Rightarrow> [network]
      | Inr within \<Rightarrow>
          if within then
            (case address_exclude network excluded of
               Inl e \<Rightarrow> [network]
             | Inr cutouts \<Rightarrow> cutouts)
          else [network])"

text \<open>Lines 34 to 48: one pass of the outer loop.\<close>

definition new_remaining :: "network \<Rightarrow> network list \<Rightarrow> network list" where
  "new_remaining excluded remaining_networks =
     concat (map (cut_network excluded) remaining_networks)"

text \<open>Lines 30 to 48: \<^verbatim>\<open>remaining_networks\<close> after all exclusions.\<close>

definition remaining_networks :: "network \<Rightarrow> network list \<Rightarrow> network list" where
  "remaining_networks main_network excluded_networks =
     foldl (\<lambda>remaining excluded. new_remaining excluded remaining)
       [main_network] excluded_networks"

text \<open>What reaches the error stream: the usage line, the line
  \<^verbatim>\<open>Error calculating cutouts: \<close> followed by the text of the exception, or the
  traceback of an exception that nothing catches. \<^verbatim>\<open>sys.stderr\<close> escapes what it cannot
  encode (its error handler is \<^verbatim>\<open>backslashreplace\<close>), so writing to it does not raise.\<close>

datatype stderr_line = Usage_message | Error_calculating_cutouts error | Traceback error

text \<open>\<^verbatim>\<open>calculate_subnet_cutouts(network_str, exclusions)\<close>: the returned list and the lines
  printed to the error stream. \<^verbatim>\<open>result.sort()\<close> sorts strings, by code points.\<close>

definition calculate_subnet_cutouts :: "string \<Rightarrow> string list \<Rightarrow> string list \<times> stderr_line list" where
  "calculate_subnet_cutouts network_str exclusions =
     (case ip_network network_str False of
        Inl e \<Rightarrow> ([network_str], [Error_calculating_cutouts e])
      | Inr main_network \<Rightarrow>
          (case traverse str_network
                  (remaining_networks main_network (parse_exclusions exclusions)) of
             Inl e \<Rightarrow> ([network_str], [Error_calculating_cutouts e])
           | Inr result \<Rightarrow> (sort result, [])))"

subsection \<open>Standard output\<close>

text \<open>
  The strings of the model are the bytes of the command line: a character outside ASCII is
  the bytes of its UTF-8 form, and a byte that is no part of well-formed UTF-8 is what
  Python keeps in \<^verbatim>\<open>sys.argv\<close> as a lone surrogate. Which strings \<^verbatim>\<open>sys.stdout\<close> can
  write depends on its encoding and its error handler, which the environment fixes; so
  \<^verbatim>\<open>main\<close> takes a predicate \<open>stdout_accepts\<close>, true of the strings that the encoder of
  \<^verbatim>\<open>sys.stdout\<close> takes. \<^verbatim>\<open>print\<close> raises \<^verbatim>\<open>UnicodeEncodeError\<close> on any other string,
  before it writes any part of it.
\<close>

text \<open>The lead bytes of well-formed UTF-8: the number of continuation bytes that follow,
  and the bounds of the first of them.\<close>

definition utf8_lead :: "nat \<Rightarrow> (nat \<times> nat \<times> nat) option" where
  "utf8_lead b =
     (if b < 0x80 then Some (0, 0x80, 0xBF)
      else if 0xC2 \<le> b \<and> b \<le> 0xDF then Some (1, 0x80, 0xBF)
      else if b = 0xE0 then Some (2, 0xA0, 0xBF)
      else if b = 0xED then Some (2, 0x80, 0x9F)
      else if 0xE1 \<le> b \<and> b \<le> 0xEF then Some (2, 0x80, 0xBF)
      else if b = 0xF0 then Some (3, 0x90, 0xBF)
      else if 0xF1 \<le> b \<and> b \<le> 0xF3 then Some (3, 0x80, 0xBF)
      else if b = 0xF4 then Some (3, 0x80, 0x8F)
      else None)"

definition utf8_tail :: "nat \<Rightarrow> nat \<Rightarrow> nat \<Rightarrow> string \<Rightarrow> bool" where
  "utf8_tail n lo hi cs \<longleftrightarrow>
     n \<le> length cs \<and>
     (n = 0 \<or> (lo \<le> of_char (hd cs) \<and> of_char (hd cs) \<le> hi)) \<and>
     list_all (\<lambda>c. (0x80::nat) \<le> of_char c \<and> of_char c \<le> (0xBF::nat)) (take n cs)"

text \<open>
  The encoder of a \<^verbatim>\<open>sys.stdout\<close> with the encoding UTF-8 and the error handler
  \<^verbatim>\<open>strict\<close>, the default outside the C and POSIX locales: it refuses lone surrogates, so
  it takes exactly the strings that are well-formed UTF-8. (In the C and POSIX locales the
  error handler is \<^verbatim>\<open>surrogateescape\<close>, and every string is taken.)
\<close>

function utf8_strict :: "string \<Rightarrow> bool" where
  "utf8_strict [] = True"
| "utf8_strict (c # cs) =
     (case utf8_lead (of_char c) of
        None \<Rightarrow> False
      | Some (n, lo, hi) \<Rightarrow> utf8_tail n lo hi cs \<and> utf8_strict (drop n cs))"
  by pat_completeness auto
termination
  by (relation "measure length") auto

text \<open>Lines 69 and 70: \<^verbatim>\<open>print(cutout)\<close> for each cutout. The lines printed and, when
  a \<^verbatim>\<open>print\<close> raised, the exception; the lines printed before it stay printed.\<close>

fun print_lines :: "(string \<Rightarrow> bool) \<Rightarrow> string list \<Rightarrow> string list \<times> error option" where
  "print_lines stdout_accepts [] = ([], None)"
| "print_lines stdout_accepts (cutout # cutouts) =
     (if stdout_accepts cutout then
        (case print_lines stdout_accepts cutouts of
           (printed, raised) \<Rightarrow> (cutout # printed, raised))
      else ([], Some UnicodeEncodeError))"

record outcome =
  stdout :: "string list"
  stderr :: "stderr_line list"
  exit_status :: nat

text \<open>\<^verbatim>\<open>main()\<close> on \<^verbatim>\<open>sys.argv\<close>. An exception of \<^verbatim>\<open>print\<close> is caught nowhere: the
  interpreter writes its traceback to the error stream and exits with status 1.\<close>

definition main :: "(string \<Rightarrow> bool) \<Rightarrow> string list \<Rightarrow> outcome" where
  "main stdout_accepts argv =
     (if length argv < 2 then \<lparr>stdout = [], stderr = [Usage_message], exit_status = 1\<rparr>
      else
        (let network = argv ! 1;
             exclusions = (if length argv > 2 then drop 2 argv else [])
         in case calculate_subnet_cutouts network exclusions of
              (cutouts, errs) \<Rightarrow>
                (case print_lines stdout_accepts cutouts of
                   (printed, None) \<Rightarrow>
                     \<lparr>stdout = printed, stderr = errs, exit_status = 0\<rparr>
                 | (printed, Some e) \<Rightarrow>
                     \<lparr>stdout = printed, stderr = errs @ [Traceback e], exit_status = 1\<rparr>)))"

section \<open>Address ranges of networks\<close>

text \<open>The number of host bits, and the networks the library can build: the prefix length
  is at most the width of the family, the address fits the width, and the host bits of
  the address are zero.\<close>

definition host_bits :: "network \<Rightarrow> nat" where
  "host_bits n = max_prefixlen (version n) - prefixlen n"

definition valid :: "network \<Rightarrow> bool" where
  "valid n \<longleftrightarrow>
     prefixlen n \<le> max_prefixlen (version n) \<and> ip n < 2 ^ max_prefixlen (version n) \<and>
     2 ^ host_bits n dvd ip n"

text \<open>The addresses of a network, as integers: from the network address to the
  broadcast address.\<close>

definition addresses :: "network \<Rightarrow> nat set" where
  "addresses n = {ip n .. broadcast_address n}"

text \<open>The two networks that \<^verbatim>\<open>subnets()\<close> yields for a valid network that is not a
  single address.\<close>

definition lower_half :: "network \<Rightarrow> network" where
  "lower_half n =
     \<lparr>version = version n, ip = ip n, scope_id = None, prefixlen = Suc (prefixlen n)\<rparr>"

definition upper_half :: "network \<Rightarrow> network" where
  "upper_half n =
     \<lparr>version = version n, ip = ip n + 2 ^ (host_bits n - 1), scope_id = None,
      prefixlen = Suc (prefixlen n)\<rparr>"

text \<open>Two networks of one family with the same prefix length whose addresses differ in
  exactly the lowest bit of the prefix: the two halves of one network.\<close>

definition siblings :: "network \<Rightarrow> network \<Rightarrow> bool" where
  "siblings a b \<longleftrightarrow>
     version a = version b \<and> prefixlen a = prefixlen b \<and> 0 < prefixlen a \<and>
     ip a XOR ip b = 2 ^ host_bits a"

text \<open>No two entries of a list of networks share an address.\<close>

definition disjoint_blocks :: "network list \<Rightarrow> bool" where
  "disjoint_blocks ns \<longleftrightarrow>
     (\<forall>i < length ns. \<forall>j < length ns. i \<noteq> j \<longrightarrow> addresses (ns ! i) \<inter> addresses (ns ! j) = {})"

text \<open>What a successful \<^verbatim>\<open>address_exclude\<close> on the network \<open>P\<close> returns, for the
  network \<open>other\<close> that its loop compares with: valid networks inside \<open>P\<close>, away from
  \<open>other\<close> and from each other, each the sibling of a network that holds \<open>other\<close>.\<close>

definition exclusion_result :: "network \<Rightarrow> network \<Rightarrow> network list \<Rightarrow> bool" where
  "exclusion_result P other ys \<longleftrightarrow>
     (\<forall>y \<in> set ys. valid y \<and> version y = version P \<and> addresses y \<subseteq> addresses P \<and>
        addresses y \<inter> addresses other = {} \<and>
        (\<forall>z. siblings y z \<longrightarrow> addresses other \<subseteq> addresses z)) \<and>
     sorted_wrt (\<lambda>a b. addresses a \<inter> addresses b = {}) ys \<and>
     addresses other \<subseteq> addresses P"

text \<open>The invariant of \<^verbatim>\<open>remaining_networks\<close> in the script's outer loop, for the main
  network \<open>base\<close>: valid networks of the family of \<open>base\<close> inside it, no two sharing
  an address, and no network whose sibling is covered by the list.\<close>

definition frontier_inv :: "network \<Rightarrow> network list \<Rightarrow> bool" where
  "frontier_inv base F \<longleftrightarrow>
     (\<forall>a \<in> set F. valid a \<and> version a = version base \<and> addresses a \<subseteq> addresses base) \<and>
     sorted_wrt (\<lambda>a b. addresses a \<inter> addresses b = {}) F \<and>
     (\<forall>a \<in> set F. \<forall>z. siblings a z \<longrightarrow> \<not> addresses z \<subseteq> \<Union> (addresses ` set F))"

text \<open>The order the specification describes for the returned lines: by the address, then
  by the prefix length, of the networks that the lines denote (read back with the parser).\<close>

definition address_order :: "network \<Rightarrow> network \<Rightarrow> bool" where
  "address_order a b \<longleftrightarrow> ip a < ip b \<or> (ip a = ip b \<and> prefixlen a \<le> prefixlen b)"

definition sorted_by_address :: "string list \<Rightarrow> bool" where
  "sorted_by_address result = sorted_wrt address_order (parse_exclusions result)"

text \<open>Coverage as the specification states it: the addresses of the result are those of the
  main network without those of the exclusions of its family that lie inside it.\<close>

definition covers :: "network \<Rightarrow> network list \<Rightarrow> network list \<Rightarrow> bool" where
  "covers main_network excluded_networks result \<longleftrightarrow>
     \<Union> (addresses ` set result) =
       addresses main_network -
       \<Union> (addresses ` {e \<in> set excluded_networks.
                           version e = version main_network \<and>
                           addresses e \<subseteq> addresses main_network})"

subsection \<open>Netmasks in closed form\<close>

lemma mask_xor_drop:
  assumes "p \<le> m"
  shows "(2 ^ m - 1) XOR drop_bit p (2 ^ m - 1) = (2::nat) ^ m - 2 ^ (m - p)"
proof -
  have "(2::nat) ^ m - 2 ^ (m - p) = push_bit (m - p) (mask p)"
    using assms by (simp add: push_bit_eq_mult mask_eq_exp_minus_1 diff_mult_distrib flip: power_add)
  moreover have "mask m XOR drop_bit p (mask m) = push_bit (m - p) (mask p :: nat)"
    using assms by (auto simp: bit_eq_iff bit_simps drop_bit_mask_eq)
  ultimately show ?thesis by (simp add: mask_eq_exp_minus_1)
qed

lemma xor_xor_self: "(a XOR b) XOR a = (b::nat)"
  by (simp add: bit_eq_iff bit_simps) blast

lemma or_low_bits:
  assumes "2 ^ k dvd (a::nat)"
  shows "a OR (2 ^ k - 1) = a + 2 ^ k - 1"
proof -
  from assms obtain q where "a = push_bit k q" by (auto simp: push_bit_eq_mult dvd_def)
  then have "a OR mask k = a + mask k"
    by (intro disjunctive_add_eq_or[symmetric] bit_eqI) (auto simp: bit_simps)
  then show ?thesis by (simp add: mask_eq_exp_minus_1)
qed

lemma netmask_eq_push_bit:
  assumes "k \<le> m"
  shows "(2::nat) ^ m - 2 ^ k = push_bit k (mask (m - k))"
proof -
  from assms have "(2::nat) ^ (m - k) * 2 ^ k = 2 ^ m" by (simp flip: power_add)
  then show ?thesis by (simp add: push_bit_eq_mult mask_eq_exp_minus_1 diff_mult_distrib)
qed

lemma and_netmask_bounds:
  assumes "k \<le> m"
  shows "(y::nat) AND (2 ^ m - 2 ^ k) < 2 ^ m" and "2 ^ k dvd (y AND (2 ^ m - 2 ^ k))"
proof -
  have eq: "y AND (2 ^ m - 2 ^ k) = push_bit k (take_bit (m - k) (drop_bit k y))"
    unfolding netmask_eq_push_bit[OF assms]
    by (rule bit_eqI) (auto simp: bit_simps)
  show "2 ^ k dvd (y AND (2 ^ m - 2 ^ k))"
    unfolding eq by (simp add: push_bit_eq_mult)
  have "take_bit (m - k) (drop_bit k y) < 2 ^ (m - k)" by simp
  then have "2 ^ k * take_bit (m - k) (drop_bit k y) < 2 ^ k * 2 ^ (m - k)"
    by (simp only: mult_less_cancel1) simp
  with assms show "y AND (2 ^ m - 2 ^ k) < 2 ^ m"
    unfolding eq by (simp add: push_bit_eq_mult mult.commute flip: power_add)
qed

lemma and_netmask_self:
  assumes "k \<le> m" "(x::nat) < 2 ^ m" "2 ^ k dvd x"
  shows "x AND (2 ^ m - 2 ^ k) = x"
proof -
  from assms(3) obtain q where q: "x = 2 ^ k * q" by (auto simp: dvd_def)
  with assms have "2 ^ k * q < 2 ^ k * 2 ^ (m - k)" by (simp flip: power_add)
  then have "q < 2 ^ (m - k)" by simp
  then have tb: "take_bit (m - k) q = q" by (simp add: take_bit_nat_eq_self)
  have "push_bit k q AND push_bit k (mask (m - k)) = push_bit k (take_bit (m - k) q)"
    by (rule bit_eqI) (auto simp: bit_simps)
  with tb show ?thesis
    unfolding netmask_eq_push_bit[OF assms(1)] q by (simp add: push_bit_eq_mult mult.commute)
qed

lemma ip_int_from_prefix_eq:
  "p \<le> max_prefixlen v \<Longrightarrow>
     ip_int_from_prefix v p = 2 ^ max_prefixlen v - 2 ^ (max_prefixlen v - p)"
  unfolding ip_int_from_prefix_def ALL_ONES_def by (rule mask_xor_drop)

lemma hostmask_eq:
  assumes "prefixlen n \<le> max_prefixlen (version n)"
  shows "hostmask n = 2 ^ host_bits n - 1"
proof -
  have "hostmask n = drop_bit (prefixlen n) (ALL_ONES (version n))"
    by (simp add: hostmask_def netmask_def ip_int_from_prefix_def xor_xor_self)
  also have "ALL_ONES (version n) = mask (max_prefixlen (version n))"
    by (simp add: ALL_ONES_def mask_eq_exp_minus_1)
  also have "drop_bit (prefixlen n) (mask (max_prefixlen (version n)) :: nat) = mask (host_bits n)"
    by (simp add: host_bits_def drop_bit_mask_eq)
  finally show ?thesis by (simp add: mask_eq_exp_minus_1)
qed

lemma broadcast_address_eq:
  assumes "valid n"
  shows "broadcast_address n = ip n + 2 ^ host_bits n - 1"
proof -
  from assms have "2 ^ host_bits n dvd ip n" "prefixlen n \<le> max_prefixlen (version n)"
    by (simp_all add: valid_def)
  from or_low_bits[OF this(1)] hostmask_eq[OF this(2)] show ?thesis
    by (simp only: broadcast_address_def)
qed

lemma addresses_eq:
  assumes "valid n"
  shows "addresses n = {ip n ..< ip n + 2 ^ host_bits n}"
proof -
  define w where "w = (2::nat) ^ host_bits n - 1"
  then have "(2::nat) ^ host_bits n = Suc w" by simp
  then show ?thesis
    unfolding addresses_def broadcast_address_eq[OF assms] by auto
qed

lemma finish_network_valid:
  assumes "finish_network v packed scope plen strict = Inr n" "plen \<le> max_prefixlen v"
  shows "valid n"
proof -
  let ?m = "max_prefixlen v" and ?k = "max_prefixlen v - plen"
  have k: "?k \<le> ?m" by simp
  from assms have n: "version n = v" "prefixlen n = plen"
    by (auto dest: finish_network_fields)
  from assms have "ip n = packed AND (2 ^ ?m - 2 ^ ?k)"
    by (auto simp: finish_network_def ip_int_from_prefix_eq Let_def split: if_splits)
  with and_netmask_bounds[OF k, of packed] have "ip n < 2 ^ ?m" "2 ^ ?k dvd ip n"
    by simp_all
  with n assms(2) show ?thesis by (simp add: valid_def host_bits_def)
qed

lemma prefix_from_prefix_string_le:
  "prefix_from_prefix_string v s = Inr p \<Longrightarrow> p \<le> max_prefixlen v"
  by (auto simp: prefix_from_prefix_string_def Let_def split: if_splits)

lemma prefix_from_ip_int_le:
  "prefix_from_ip_int v i = Inr p \<Longrightarrow> p \<le> max_prefixlen v"
  by (auto simp: prefix_from_ip_int_def Let_def split: if_splits)

lemma make_netmask_le:
  "make_netmask v arg = Inr p \<Longrightarrow> p \<le> max_prefixlen v"
  by (auto simp: make_netmask_def prefix_from_ip_string_def
           split: mask_arg.splits ip_version.splits sum.splits if_splits
           dest: prefix_from_prefix_string_le prefix_from_ip_int_le)

lemma IPv4Network_valid: "IPv4Network s strict = Inr n \<Longrightarrow> valid n \<and> version n = IPv4"
  by (auto simp: IPv4Network_def split: sum.splits prod.splits
           dest: finish_network_valid make_netmask_le finish_network_fields)

lemma IPv6Network_valid: "IPv6Network s strict = Inr n \<Longrightarrow> valid n \<and> version n = IPv6"
  by (auto simp: IPv6Network_def split: sum.splits prod.splits
           dest: finish_network_valid make_netmask_le finish_network_fields)

lemma ip_network_valid: "ip_network s strict = Inr n \<Longrightarrow> valid n"
  by (auto simp: ip_network_def split: sum.splits if_splits
           dest: IPv4Network_valid IPv6Network_valid)

lemma network_of_class_valid: "network_of_class v s strict = Inr n \<Longrightarrow> valid n \<and> version n = v"
  by (auto simp: network_of_class_def split: ip_version.splits
           dest: IPv4Network_valid IPv6Network_valid)

lemma network_from_tuple_ok:
  assumes "a < 2 ^ max_prefixlen v" "p \<le> max_prefixlen v" "2 ^ (max_prefixlen v - p) dvd a"
  shows "network_from_tuple v a p = Inr \<lparr>version = v, ip = a, scope_id = None, prefixlen = p\<rparr>"
proof -
  have "a AND (2 ^ max_prefixlen v - 2 ^ (max_prefixlen v - p)) = a"
    using assms by (intro and_netmask_self) simp_all
  with assms show ?thesis
    by (simp add: network_from_tuple_def make_netmask_def finish_network_def
          ip_int_from_prefix_eq ALL_ONES_def)
qed

lemma valid_top:
  assumes "valid n"
  shows "ip n + 2 ^ host_bits n \<le> 2 ^ max_prefixlen (version n)"
proof -
  let ?h = "host_bits n" and ?m = "max_prefixlen (version n)"
  from assms have le: "prefixlen n \<le> ?m" and lt: "ip n < 2 ^ ?m" and dv: "2 ^ ?h dvd ip n"
    by (simp_all add: valid_def)
  from dv obtain q where q: "ip n = 2 ^ ?h * q" by (auto simp: dvd_def)
  from le have m: "(2::nat) ^ ?m = 2 ^ ?h * 2 ^ prefixlen n"
    by (simp add: host_bits_def flip: power_add)
  with lt q have "q < 2 ^ prefixlen n" by simp
  then have "Suc q \<le> 2 ^ prefixlen n" by simp
  then have "2 ^ ?h * Suc q \<le> 2 ^ ?h * 2 ^ prefixlen n" by (simp only: mult_le_mono2)
  with q m show ?thesis by simp
qed

lemma half_less:
  assumes "a + 2 * 2 ^ k \<le> (m::nat)"
  shows "a + 2 ^ k < m"
proof -
  have "0 < (2::nat) ^ k" by simp
  with assms show ?thesis by linarith
qed

lemma range_from_halves:
  "range_from a (a + 2 ^ Suc k) (2 ^ k) = [a, a + 2 ^ k]"
proof -
  define w where "w = (2::nat) ^ k"
  then have pos: "0 < w" by simp
  have "range_from (a + w + w) (a + 2 * w) w = []"
    by (subst range_from.simps) simp
  moreover have "range_from (a + w) (a + 2 * w) w = (a + w) # range_from (a + w + w) (a + 2 * w) w"
    using pos by (subst range_from.simps) simp
  moreover have "range_from a (a + 2 * w) w = a # range_from (a + w) (a + 2 * w) w"
    using pos by (subst range_from.simps) simp
  ultimately show ?thesis by (simp add: w_def)
qed

lemma host_bits_Suc:
  assumes "prefixlen n < max_prefixlen (version n)"
  obtains k where "host_bits n = Suc k" "max_prefixlen (version n) - Suc (prefixlen n) = k"
  using assms by (cases "host_bits n") (auto simp: host_bits_def)

lemma subnets_valid:
  assumes "valid n" "prefixlen n < max_prefixlen (version n)"
  shows "subnets n = Inr [lower_half n, upper_half n]"
proof -
  let ?m = "max_prefixlen (version n)"
  from assms(2) obtain k where k: "host_bits n = Suc k" "?m - Suc (prefixlen n) = k"
    by (rule host_bits_Suc)
  from assms have le: "prefixlen n \<le> ?m" by simp
  from assms(1) have lt: "ip n < 2 ^ ?m" and dv: "2 ^ Suc k dvd ip n"
    by (simp_all add: valid_def k)
  have dv1: "(2::nat) ^ k dvd ip n"
    using dv by (metis dvd_mult_right mult.commute power_Suc)
  have step: "drop_bit 1 (hostmask n + 1) = 2 ^ k"
    by (simp add: hostmask_eq[OF le] k drop_bit_eq_div)
  have stop: "broadcast_address n + 1 = ip n + 2 ^ Suc k"
    by (simp add: broadcast_address_eq[OF assms(1)] k)
  have r: "py_range (ip n) (broadcast_address n + 1) (drop_bit 1 (hostmask n + 1)) =
      Inr [ip n, ip n + 2 ^ k]"
    unfolding step stop by (simp only: py_range_def range_from_halves) simp
  have up: "ip n + 2 ^ k < 2 ^ ?m"
    using valid_top[OF assms(1)] by (intro half_less) (simp add: k)
  have t1: "network_from_tuple (version n) (ip n) (Suc (prefixlen n)) = Inr (lower_half n)"
    using lt assms(2) dv1 by (simp add: network_from_tuple_ok k lower_half_def)
  have t2: "network_from_tuple (version n) (ip n + 2 ^ k) (Suc (prefixlen n)) =
      Inr (upper_half n)"
    using up assms(2) dv1 by (simp add: network_from_tuple_ok k upper_half_def)
  from assms(2) show ?thesis
    unfolding subnets_def Let_def r by (simp add: t1 t2)
qed

lemma unpack2_subnets_valid:
  assumes "valid n" "prefixlen n < max_prefixlen (version n)"
  shows "unpack2 (subnets n) = Inr (lower_half n, upper_half n)"
  by (simp add: subnets_valid[OF assms] unpack2_def)

lemma valid_halves:
  assumes "valid n" "prefixlen n < max_prefixlen (version n)"
  shows "valid (lower_half n)" and "valid (upper_half n)"
proof -
  let ?m = "max_prefixlen (version n)"
  from assms(2) obtain k where k: "host_bits n = Suc k" "?m - Suc (prefixlen n) = k"
    by (rule host_bits_Suc)
  from assms(1) have lt: "ip n < 2 ^ ?m" and dv: "2 ^ Suc k dvd ip n"
    by (simp_all add: valid_def k)
  have dv1: "(2::nat) ^ k dvd ip n"
    using dv by (metis dvd_mult_right mult.commute power_Suc)
  have up: "ip n + 2 ^ k < 2 ^ ?m"
    using valid_top[OF assms(1)] by (intro half_less) (simp add: k)
  show "valid (lower_half n)"
    using assms(2) lt dv1 k by (simp add: valid_def host_bits_def lower_half_def)
  show "valid (upper_half n)"
    using assms(2) up dv1 k by (simp add: valid_def host_bits_def upper_half_def)
qed

lemma addresses_halves:
  assumes "valid n" "prefixlen n < max_prefixlen (version n)" "host_bits n = Suc k"
  shows "addresses (lower_half n) = {ip n ..< ip n + 2 ^ k}"
    and "addresses (upper_half n) = {ip n + 2 ^ k ..< ip n + 2 * 2 ^ k}"
    and "addresses n = {ip n ..< ip n + 2 * 2 ^ k}"
proof -
  from assms(2,3) have hb: "host_bits (lower_half n) = k" "host_bits (upper_half n) = k"
    by (simp_all add: host_bits_def lower_half_def upper_half_def)
  show "addresses (lower_half n) = {ip n ..< ip n + 2 ^ k}"
    unfolding addresses_eq[OF valid_halves(1)[OF assms(1,2)]] hb
    by (simp add: lower_half_def)
  show "addresses (upper_half n) = {ip n + 2 ^ k ..< ip n + 2 * 2 ^ k}"
    unfolding addresses_eq[OF valid_halves(2)[OF assms(1,2)]] hb
    by (simp add: upper_half_def assms(3) mult_2 add.assoc)
  show "addresses n = {ip n ..< ip n + 2 * 2 ^ k}"
    unfolding addresses_eq[OF assms(1)] assms(3) by simp
qed

subsection \<open>What an exclusion leaves\<close>

lemma addresses_cong:
  assumes "version a = version b" "ip a = ip b" "prefixlen a = prefixlen b"
  shows "addresses a = addresses b"
  using assms
  by (simp add: addresses_def broadcast_address_def hostmask_def netmask_def)

lemma or_nat_ge: "(a::nat) \<le> a OR b"
  by (metis of_nat_0_le_iff of_nat_le_iff of_nat_or_eq or_greater_eq)

lemma addresses_nonempty: "ip n \<in> addresses n"
  by (simp add: addresses_def broadcast_address_def or_nat_ge)

lemma network_eq_refl: "network_eq n n"
  by (simp add: network_eq_def)

lemma network_eq_addresses:
  assumes "network_eq a b"
  shows "addresses a = addresses b"
  using assms
  by (simp add: network_eq_def addresses_def broadcast_address_def hostmask_def)

lemma subnet_of_refl: "subnet_of n n = Inr True"
  by (simp add: subnet_of_def)

lemma subnet_of_addresses:
  assumes "subnet_of a b = Inr True"
  shows "addresses a \<subseteq> addresses b" and "version a = version b"
  using assms by (auto simp: subnet_of_def addresses_def split: if_splits)

lemma xor_low_bit:
  assumes "2 ^ Suc k dvd (a::nat)"
  shows "(a + 2 ^ k) XOR 2 ^ k = a" and "a XOR 2 ^ k = a + 2 ^ k"
proof -
  from assms obtain q where q: "a = push_bit (Suc k) q" by (auto simp: push_bit_eq_mult dvd_def)
  have nb: "\<not> bit a k" unfolding q bit_push_bit_iff by simp
  have add: "a + 2 ^ k = a OR 2 ^ k"
    by (rule disjunctive_add_eq_or) (rule bit_eqI, use nb in \<open>auto simp: bit_simps\<close>)
  show "a XOR 2 ^ k = a + 2 ^ k"
    unfolding add by (rule bit_eqI) (use nb in \<open>auto simp: bit_simps\<close>)
  show "(a + 2 ^ k) XOR 2 ^ k = a"
    unfolding add by (rule bit_eqI) (use nb in \<open>auto simp: bit_simps\<close>)
qed

lemma xor_eq_iff: "(a::nat) XOR b = c \<longleftrightarrow> b = a XOR c"
  by (auto simp: bit_eq_iff bit_simps)

lemma siblings_halves:
  assumes "valid P" "prefixlen P < max_prefixlen (version P)"
  shows "siblings (upper_half P) z \<Longrightarrow> addresses z = addresses (lower_half P)"
    and "siblings (lower_half P) z \<Longrightarrow> addresses z = addresses (upper_half P)"
proof -
  from assms(2) obtain k where k: "host_bits P = Suc k"
    "max_prefixlen (version P) - Suc (prefixlen P) = k"
    by (rule host_bits_Suc)
  from assms(1) have dv: "2 ^ Suc k dvd ip P" by (simp add: valid_def k)
  have hb: "host_bits (upper_half P) = k" "host_bits (lower_half P) = k"
    using k(2) by (simp_all add: host_bits_def upper_half_def lower_half_def)
  have ipu: "ip (upper_half P) = ip P + 2 ^ k" by (simp add: upper_half_def k)
  have ipl: "ip (lower_half P) = ip P" by (simp add: lower_half_def)
  {
    assume "siblings (upper_half P) z"
    then have z: "version z = version P" "prefixlen z = Suc (prefixlen P)"
      and x: "(ip P + 2 ^ k) XOR ip z = 2 ^ k"
      by (simp_all add: siblings_def hb ipu) (simp_all add: upper_half_def)
    from x have "ip z = ip P" by (simp add: xor_eq_iff xor_low_bit(1)[OF dv])
    with z show "addresses z = addresses (lower_half P)"
      by (intro addresses_cong) (simp_all add: lower_half_def)
  }
  {
    assume "siblings (lower_half P) z"
    then have z: "version z = version P" "prefixlen z = Suc (prefixlen P)"
      and x: "ip P XOR ip z = 2 ^ k"
      by (simp_all add: siblings_def hb ipl) (simp_all add: lower_half_def)
    from x have "ip z = ip P + 2 ^ k" by (simp add: xor_eq_iff xor_low_bit(2)[OF dv])
    with z show "addresses z = addresses (upper_half P)"
      by (intro addresses_cong) (simp_all add: upper_half_def k)
  }
qed

lemma halves_disjoint:
  assumes "valid P" "prefixlen P < max_prefixlen (version P)"
  shows "addresses (lower_half P) \<inter> addresses (upper_half P) = {}"
    and "addresses (lower_half P) \<subseteq> addresses P"
    and "addresses (upper_half P) \<subseteq> addresses P"
proof -
  from assms(2) obtain k where k: "host_bits P = Suc k"
    "max_prefixlen (version P) - Suc (prefixlen P) = k"
    by (rule host_bits_Suc)
  note a = addresses_halves[OF assms k(1)]
  show "addresses (lower_half P) \<inter> addresses (upper_half P) = {}"
    unfolding a by auto
  show "addresses (lower_half P) \<subseteq> addresses P"
    unfolding a by auto
  show "addresses (upper_half P) \<subseteq> addresses P"
    unfolding a by auto
qed

lemma exclusion_result_step:
  assumes "valid s'" "version s' = version P" "version s = version P"
    and "addresses s \<subseteq> addresses P" "addresses s' \<subseteq> addresses P"
    and "addresses s \<inter> addresses s' = {}"
    and "\<And>z. siblings s' z \<Longrightarrow> addresses z = addresses s"
    and "exclusion_result s other ys"
  shows "exclusion_result P other (s' # ys)"
  using assms unfolding exclusion_result_def by (simp add: subset_eq disjoint_iff) blast

lemma exclusion_result_Nil: "exclusion_result P other [] \<longleftrightarrow> addresses other \<subseteq> addresses P"
  by (simp add: exclusion_result_def)

lemma exclude_loop_result:
  assumes "exclude_loop s1 s2 other = Inr ys"
    and "valid P" "prefixlen P < max_prefixlen (version P)"
    and "s1 = lower_half P" "s2 = upper_half P"
  shows "exclusion_result P other ys"
  using assms
proof (induction s1 s2 other arbitrary: ys P rule: exclude_loop.induct)
  case (1 s1 s2 other)
  note valid = valid_halves[OF "1.prems"(2,3)]
  note dis = halves_disjoint[OF "1.prems"(2,3)]
  note sib = siblings_halves[OF "1.prems"(2,3)]
  have ver: "version s1 = version P" "version s2 = version P"
    by (simp_all add: "1.prems"(4,5) lower_half_def upper_half_def)
  have up: "exclusion_result P other (s2 # zs)" if "exclusion_result s1 other zs" for zs
    using valid(2) ver dis sib(1) that unfolding "1.prems"(4,5)
    by (intro exclusion_result_step) auto
  have lo: "exclusion_result P other (s1 # zs)" if "exclusion_result s2 other zs" for zs
    using valid(1) ver dis sib(2) that unfolding "1.prems"(4,5)
    by (intro exclusion_result_step) auto
  show ?case
  proof (cases "\<not> network_eq s1 other \<and> \<not> network_eq s2 other")
    case False
    show ?thesis
    proof (cases "network_eq s1 other")
      case True
      with "1.prems"(1) have ys: "ys = [s2]"
        by (simp add: exclude_loop.simps[of s1 s2 other])
      from True have "exclusion_result s1 other []"
        by (simp add: exclusion_result_Nil network_eq_addresses)
      then show ?thesis unfolding ys by (rule up)
    next
      case f: False
      with False have eq2: "network_eq s2 other" by simp
      with f "1.prems"(1) have ys: "ys = [s1]"
        by (simp add: exclude_loop.simps[of s1 s2 other])
      from eq2 have "exclusion_result s2 other []"
        by (simp add: exclusion_result_Nil network_eq_addresses)
      then show ?thesis unfolding ys by (rule lo)
    qed
  next
    case True
    from True "1.prems"(1) obtain in1 where in1: "subnet_of other s1 = Inr in1"
      by (auto simp: exclude_loop.simps[of s1 s2 other] split: sum.splits)
    show ?thesis
    proof (cases in1)
      case yes: True
      with True in1 "1.prems"(1) obtain t1 t2 zs where
        sub: "unpack2 (subnets s1) = Inr (t1, t2)" and
        rec: "exclude_loop t1 t2 other = Inr zs" and ys: "ys = s2 # zs"
        by (auto simp: exclude_loop.simps[of s1 s2 other] split: sum.splits)
      from unpack2_subnets(1)[OF sub] have lt: "prefixlen s1 < max_prefixlen (version s1)" .
      from sub unpack2_subnets_valid[OF _ lt] valid(1) "1.prems"(4)
      have t: "t1 = lower_half s1" "t2 = upper_half s1" by simp_all
      have "exclusion_result s1 other zs"
        using True in1 yes t sub rec valid(1) lt "1.prems"(4)
        by (intro "1.IH"(1)[of in1 "(t1, t2)" t1 t2 zs s1]) simp_all
      then show ?thesis unfolding ys by (rule up)
    next
      case f: False
      with True in1 "1.prems"(1) obtain in2 where in2: "subnet_of other s2 = Inr in2"
        by (auto simp: exclude_loop.simps[of s1 s2 other] split: sum.splits)
      with f True in1 "1.prems"(1) have i2: in2
        by (auto simp: exclude_loop.simps[of s1 s2 other] split: sum.splits if_splits)
      with f True in1 in2 "1.prems"(1) obtain t1 t2 zs where
        sub: "unpack2 (subnets s2) = Inr (t1, t2)" and
        rec: "exclude_loop t1 t2 other = Inr zs" and ys: "ys = s1 # zs"
        by (auto simp: exclude_loop.simps[of s1 s2 other] split: sum.splits)
      from unpack2_subnets(1)[OF sub] have lt: "prefixlen s2 < max_prefixlen (version s2)" .
      from sub unpack2_subnets_valid[OF _ lt] valid(2) "1.prems"(5)
      have t: "t1 = lower_half s2" "t2 = upper_half s2" by simp_all
      have "exclusion_result s2 other zs"
        using True in1 f in2 i2 t sub rec valid(2) lt "1.prems"(5)
        by (intro "1.IH"(2)[of in1 in2 "(t1, t2)" t1 t2 zs s2]) simp_all
      then show ?thesis unfolding ys by (rule lo)
    qed
  qed
qed

lemma address_exclude_result:
  assumes "address_exclude B E = Inr ys" "valid B"
  shows "\<exists>other. exclusion_result B other ys"
proof (cases "network_eq E B")
  case True
  with assms(1) have "ys = []"
    by (auto simp: address_exclude_def split: if_splits sum.splits)
  then have "exclusion_result B B ys" by (simp add: exclusion_result_Nil)
  then show ?thesis ..
next
  case False
  with assms(1) obtain other s1 s2 where
    sub: "unpack2 (subnets B) = Inr (s1, s2)" and loop: "exclude_loop s1 s2 other = Inr ys"
    by (auto simp: address_exclude_def split: if_splits sum.splits)
  from unpack2_subnets(1)[OF sub] have lt: "prefixlen B < max_prefixlen (version B)" .
  from sub unpack2_subnets_valid[OF assms(2) lt]
  have "s1 = lower_half B" "s2 = upper_half B" by simp_all
  from exclude_loop_result[OF loop assms(2) lt this] show ?thesis ..
qed

lemma cut_network_cases:
  assumes "valid B"
  shows "cut_network E B = [B] \<or> (\<exists>other. exclusion_result B other (cut_network E B))"
  using address_exclude_result[OF _ assms, of E]
  by (auto simp: cut_network_def split: sum.splits)

lemma cut_network_within:
  assumes "valid B" "a \<in> set (cut_network E B)"
  shows "valid a" "version a = version B" "addresses a \<subseteq> addresses B"
  using cut_network_cases[OF assms(1), of E] assms
  by (auto simp: exclusion_result_def)

lemma cut_network_disjoint:
  assumes "valid B"
  shows "sorted_wrt (\<lambda>a b. addresses a \<inter> addresses b = {}) (cut_network E B)"
  using cut_network_cases[OF assms(1), of E]
  by (auto simp: exclusion_result_def)

lemma sorted_wrt_concat_map:
  assumes "sorted_wrt R xs" "\<And>x. x \<in> set xs \<Longrightarrow> sorted_wrt Q (f x)"
    and "\<And>x y a b. x \<in> set xs \<Longrightarrow> y \<in> set xs \<Longrightarrow> R x y \<Longrightarrow> a \<in> set (f x) \<Longrightarrow> b \<in> set (f y) \<Longrightarrow> Q a b"
  shows "sorted_wrt Q (concat (map f xs))"
  using assms
proof (induction xs)
  case Nil
  then show ?case by simp
next
  case (Cons x xs)
  have "sorted_wrt Q (concat (map f xs))"
  proof (rule Cons.IH)
    show "sorted_wrt R xs" using Cons.prems(1) by simp
    show "sorted_wrt Q (f y)" if "y \<in> set xs" for y using that Cons.prems(2) by simp
    show "Q a b" if "y \<in> set xs" "z \<in> set xs" "R y z" "a \<in> set (f y)" "b \<in> set (f z)"
      for y z a b
      using that Cons.prems(3)[of y z a b] by simp
  qed
  moreover have "sorted_wrt Q (f x)" using Cons.prems(2) by simp
  moreover have "Q a b" if "a \<in> set (f x)" "b \<in> set (concat (map f xs))" for a b
  proof -
    from that(2) obtain y where y: "y \<in> set xs" "b \<in> set (f y)" by auto
    with Cons.prems(1) have "R x y" by simp
    with y that(1) show ?thesis using Cons.prems(3)[of x y a b] by simp
  qed
  ultimately show ?case by (simp add: sorted_wrt_append)
qed

lemma new_remaining_disjoint:
  assumes "\<forall>a \<in> set F. valid a" "sorted_wrt (\<lambda>a b. addresses a \<inter> addresses b = {}) F"
  shows "sorted_wrt (\<lambda>a b. addresses a \<inter> addresses b = {}) (new_remaining E F)"
  unfolding new_remaining_def
proof (rule sorted_wrt_concat_map[where R = "\<lambda>a b. addresses a \<inter> addresses b = {}"])
  show "sorted_wrt (\<lambda>a b. addresses a \<inter> addresses b = {}) F"
    using assms(2) .
  show "sorted_wrt (\<lambda>a b. addresses a \<inter> addresses b = {}) (cut_network E x)" if "x \<in> set F" for x
    using that assms(1) by (simp add: cut_network_disjoint)
  show "addresses a \<inter> addresses b = {}"
    if "x \<in> set F" "y \<in> set F" "addresses x \<inter> addresses y = {}"
      "a \<in> set (cut_network E x)" "b \<in> set (cut_network E y)" for x y a b
    using that assms(1) cut_network_within(3)[of x a E] cut_network_within(3)[of y b E]
    by blast
qed

lemma new_remaining_within:
  assumes "\<forall>a \<in> set F. valid a \<and> version a = v \<and> addresses a \<subseteq> A"
  shows "\<forall>a \<in> set (new_remaining E F). valid a \<and> version a = v \<and> addresses a \<subseteq> A"
  using assms cut_network_within unfolding new_remaining_def by fastforce

subsection \<open>The remaining networks\<close>

lemma disjoint_blocks_iff:
  "disjoint_blocks ns \<longleftrightarrow> sorted_wrt (\<lambda>a b. addresses a \<inter> addresses b = {}) ns"
proof
  assume "disjoint_blocks ns"
  then show "sorted_wrt (\<lambda>a b. addresses a \<inter> addresses b = {}) ns"
    by (simp add: disjoint_blocks_def sorted_wrt_iff_nth_less)
next
  assume s: "sorted_wrt (\<lambda>a b. addresses a \<inter> addresses b = {}) ns"
  show "disjoint_blocks ns"
    unfolding disjoint_blocks_def
  proof (intro allI impI)
    fix i j assume ij: "i < length ns" "j < length ns" "i \<noteq> j"
    then consider "i < j" | "j < i" by linarith
    then show "addresses (ns ! i) \<inter> addresses (ns ! j) = {}"
    proof cases
      case 1
      with s ij show ?thesis by (simp add: sorted_wrt_iff_nth_less)
    next
      case 2
      with s ij have "addresses (ns ! j) \<inter> addresses (ns ! i) = {}"
        by (simp add: sorted_wrt_iff_nth_less)
      then show ?thesis by (simp add: Int_commute)
    qed
  qed
qed

lemma disjoint_members:
  assumes "sorted_wrt (\<lambda>a b. addresses a \<inter> addresses b = {}) F" "a \<in> set F" "b \<in> set F" "a \<noteq> b"
  shows "addresses a \<inter> addresses b = {}"
proof -
  from assms(2,3) obtain i j where ij: "i < length F" "F ! i = a" "j < length F" "F ! j = b"
    by (auto simp: in_set_conv_nth)
  with assms(4) have "i \<noteq> j" by auto
  with assms(1) ij show ?thesis
    using disjoint_blocks_iff[of F] by (auto simp: disjoint_blocks_def)
qed

lemma siblings_outside:
  assumes "valid b" "siblings b z"
  shows "ip z \<notin> addresses b"
proof -
  let ?h = "host_bits b"
  from assms(1) have dv: "2 ^ ?h dvd ip b" by (simp add: valid_def)
  from assms(2) have x: "ip z = ip b XOR 2 ^ ?h" by (simp add: siblings_def xor_eq_iff)
  from dv obtain q where q: "ip b = 2 ^ ?h * q" by (auto simp: dvd_def)
  have pos: "0 < (2::nat) ^ ?h" by simp
  show ?thesis
  proof (cases "even q")
    case True
    then have "2 ^ Suc ?h dvd ip b" by (auto simp: q elim!: evenE)
    from xor_low_bit(2)[OF this] x have "ip z = ip b + 2 ^ ?h" by simp
    then show ?thesis unfolding addresses_eq[OF assms(1)] by simp
  next
    case False
    then obtain r where r: "q = 2 * r + 1" by (auto elim!: oddE)
    define a where "a = 2 ^ Suc ?h * r"
    have a: "ip b = a + 2 ^ ?h" by (simp add: q r a_def algebra_simps)
    have "2 ^ Suc ?h dvd a" by (simp add: a_def)
    from xor_low_bit(1)[OF this] x a have "ip z = a" by simp
    with a pos show ?thesis unfolding addresses_eq[OF assms(1)] by simp
  qed
qed

lemma frontier_inv_initial:
  assumes "valid b"
  shows "frontier_inv b [b]"
  using assms siblings_outside[OF assms] addresses_nonempty
  by (auto simp: frontier_inv_def)

lemma frontier_inv_step:
  assumes "frontier_inv base F"
  shows "frontier_inv base (new_remaining E F)"
proof -
  let ?F' = "new_remaining E F"
  from assms have val: "\<forall>a \<in> set F. valid a \<and> version a = version base \<and> addresses a \<subseteq> addresses base"
    and dis: "sorted_wrt (\<lambda>a b. addresses a \<inter> addresses b = {}) F"
    and sib: "\<And>a z. a \<in> set F \<Longrightarrow> siblings a z \<Longrightarrow> \<not> addresses z \<subseteq> \<Union> (addresses ` set F)"
    by (auto simp: frontier_inv_def)
  from val have v: "\<forall>a \<in> set F. valid a" by simp
  have origin: "\<exists>B \<in> set F. a \<in> set (cut_network E B)" if "a \<in> set ?F'" for a
    using that by (auto simp: new_remaining_def)
  have shrink: "\<Union> (addresses ` set ?F') \<subseteq> \<Union> (addresses ` set F)"
  proof
    fix x assume "x \<in> \<Union> (addresses ` set ?F')"
    then obtain a where a: "a \<in> set ?F'" "x \<in> addresses a" by auto
    from origin[OF a(1)] obtain B where B: "B \<in> set F" "a \<in> set (cut_network E B)" by auto
    with v cut_network_within(3)[of B a E] a(2) show "x \<in> \<Union> (addresses ` set F)" by auto
  qed
  have open': "\<not> addresses z \<subseteq> \<Union> (addresses ` set ?F')"
    if a: "a \<in> set ?F'" and z: "siblings a z" for a z
  proof -
    from origin[OF a] obtain B where B: "B \<in> set F" "a \<in> set (cut_network E B)" by auto
    from B(1) v have vB: "valid B" by simp
    from cut_network_cases[OF vB, of E] show ?thesis
    proof
      assume "cut_network E B = [B]"
      with B have "a \<in> set F" by simp
      from sib[OF this z] shrink show ?thesis by blast
    next
      assume "\<exists>other. exclusion_result B other (cut_network E B)"
      then obtain other where r: "exclusion_result B other (cut_network E B)" ..
      from r B(2) z have oz: "addresses other \<subseteq> addresses z"
        by (auto simp: exclusion_result_def)
      from r have oB: "addresses other \<subseteq> addresses B" by (simp add: exclusion_result_def)
      have "ip other \<notin> \<Union> (addresses ` set ?F')"
      proof
        assume "ip other \<in> \<Union> (addresses ` set ?F')"
        then obtain c where c: "c \<in> set ?F'" "ip other \<in> addresses c" by auto
        from origin[OF c(1)] obtain C where C: "C \<in> set F" "c \<in> set (cut_network E C)" by auto
        show False
        proof (cases "C = B")
          case True
          with r C(2) have "addresses c \<inter> addresses other = {}"
            by (auto simp: exclusion_result_def)
          with c(2) addresses_nonempty[of other] show False by auto
        next
          case False
          from disjoint_members[OF dis C(1) B(1) False]
          have "addresses C \<inter> addresses B = {}" .
          moreover from C v cut_network_within(3)[of C c E] have "addresses c \<subseteq> addresses C"
            by simp
          ultimately show False using c(2) oB addresses_nonempty[of other] by auto
        qed
      qed
      with oz addresses_nonempty[of other] show ?thesis by auto
    qed
  qed
  from new_remaining_within[OF val] new_remaining_disjoint[OF v dis] open'
  show ?thesis unfolding frontier_inv_def by blast
qed

lemma frontier_inv_remaining:
  assumes "valid b"
  shows "frontier_inv b (remaining_networks b es)"
proof -
  have "frontier_inv b (foldl (\<lambda>remaining excluded. new_remaining excluded remaining) F es)"
    if "frontier_inv b F" for F
    using that by (induction es arbitrary: F) (simp_all add: frontier_inv_step)
  from this[OF frontier_inv_initial[OF assms]] show ?thesis
    by (simp add: remaining_networks_def)
qed

subsection \<open>The returned list, and exclusions without effect\<close>

lemma str_network_valid:
  assumes "valid n"
  shows "\<exists>s. str_network n = Inr s"
proof (cases "version n")
  case IPv4
  with assms have "ip n < 2 ^ 32" by (simp add: valid_def max_prefixlen_def)
  with IPv4 show ?thesis
    by (simp add: str_network_def address_str_def v4_string_from_ip_int_def)
next
  case IPv6
  with assms have "ip n < 2 ^ 128" by (simp add: valid_def max_prefixlen_def)
  then have "\<not> ip n > ALL_ONES IPv6" by (simp add: ALL_ONES_def max_prefixlen_def)
  with IPv6 show ?thesis
    by (simp add: str_network_def address_str_def v6_string_from_ip_int_def split: option.splits)
qed

lemma traverse_total:
  assumes "\<forall>x \<in> set xs. \<exists>y. f x = Inr y"
  shows "\<exists>ys. traverse f xs = Inr ys"
  using assms by (induction xs) (auto split: sum.splits)

lemma calculate_parsed:
  assumes "ip_network network_str False = Inr main_network"
  shows "\<exists>result.
           traverse str_network (remaining_networks main_network (parse_exclusions exclusions)) =
             Inr result \<and>
           calculate_subnet_cutouts network_str exclusions = (sort result, [])"
proof -
  from assms have "valid main_network" by (rule ip_network_valid)
  then have "frontier_inv main_network (remaining_networks main_network (parse_exclusions exclusions))"
    by (rule frontier_inv_remaining)
  then have "\<forall>n \<in> set (remaining_networks main_network (parse_exclusions exclusions)).
      \<exists>s. str_network n = Inr s"
    by (auto simp: frontier_inv_def intro: str_network_valid)
  then obtain result where
    "traverse str_network (remaining_networks main_network (parse_exclusions exclusions)) = Inr result"
    using traverse_total by blast
  with assms show ?thesis by (simp add: calculate_subnet_cutouts_def)
qed

lemma parse_exclusions_append:
  "parse_exclusions (xs @ ys) = parse_exclusions xs @ parse_exclusions ys"
  by (induction xs) (auto split: sum.splits)

lemma subnet_of_network_eq:
  assumes "network_eq a b"
  shows "subnet_of a b = Inr True"
  using assms
  by (simp add: network_eq_def subnet_of_def broadcast_address_def hostmask_def)

lemma cut_network_equal:
  assumes "network_eq excluded network"
  shows "cut_network excluded network = []"
  using assms subnet_of_network_eq[OF assms]
  by (simp add: cut_network_def address_exclude_def network_eq_def)

lemma cut_network_unchanged:
  assumes "\<not> addresses excluded \<subseteq> addresses network \<or> (\<exists>e. subnet_of excluded network = Inl e)"
  shows "cut_network excluded network = [network]"
  using assms subnet_of_addresses(1)[of excluded network]
  by (auto simp: cut_network_def split: sum.splits)

lemma new_remaining_unchanged:
  assumes "\<forall>a \<in> set F. \<not> addresses excluded \<subseteq> addresses a \<or> (\<exists>e. subnet_of excluded a = Inl e)"
  shows "new_remaining excluded F = F"
  using assms unfolding new_remaining_def
  by (induction F) (simp_all add: cut_network_unchanged)

lemma remaining_networks_append:
  "remaining_networks b (xs @ ys) =
     foldl (\<lambda>remaining excluded. new_remaining excluded remaining) (remaining_networks b xs) ys"
  by (simp add: remaining_networks_def)

subsection \<open>Evaluation at concrete inputs\<close>

text \<open>The equations that the simplifier needs to run the parser, the operations on valid
  networks, the text of a network and the script on numerals and string literals.\<close>

lemmas parse_eval = ip_network_def IPv4Network_def IPv6Network_def split_addr_prefix_def IPv4Address_def
  IPv6Address_def v4_ip_int_from_string_def v6_ip_int_from_string_def parse_octet_def parse_hextet_def
  isascii_isdigit_def is_digit_def is_hex_digit_def int10_def int16_def digit_val_def hex_val_def
  from_bytes_big_def make_netmask_def prefix_from_prefix_string_def prefix_from_ip_string_def
  prefix_from_ip_int_def count_righthand_zero_bits_def int_max_str_digits_def finish_network_def
  ip_int_from_prefix_def ALL_ONES_def max_prefixlen_def split_scope_id_def ipv4_suffix_def
  find_skip_index_def hextet_counts_def shift_in_hextets_def Let_def

lemmas str_eval = str_network_def address_str_def v4_string_from_ip_int_def v6_string_from_ip_int_def
  compress_hextets_def compress_scan_def str_nat.simps hex_nat.simps to_bytes4_def ALL_ONES_def
  max_prefixlen_def Let_def drop_bit_eq_div

lemmas net_eval = subnet_of_def network_eq_def netmask_def ip_int_from_prefix_eq broadcast_address_eq
  valid_def host_bits_def max_prefixlen_def unpack2_subnets_valid lower_half_def upper_half_def
  address_exclude_def network_of_class_def cut_network_def exclude_loop.simps

lemmas script_eval = calculate_subnet_cutouts_def remaining_networks_def new_remaining_def

lemma addresses_eval:
  assumes "valid n"
  shows "addresses n = {ip n ..< ip n + 2 ^ (max_prefixlen (version n) - prefixlen n)}"
  using addresses_eq[OF assms] by (simp add: host_bits_def)

lemma parse_10_0_0_0_30:
  "ip_network ''10.0.0.0/30'' False =
     Inr \<lparr>version = IPv4, ip = 167772160, scope_id = None, prefixlen = 30\<rparr>"
  by (simp add: parse_eval)

lemma parse_not_an_ip: "ip_network ''not-an-ip'' False = Inl ValueError"
  by (simp add: parse_eval)

lemma parse_garbage: "ip_network ''garbage'' False = Inl ValueError"
  by (simp add: parse_eval)

lemma parse_byte_ff: "ip_network [CHR 0xFF] False = Inl ValueError"
  by (simp add: parse_eval)

lemma parse_10_0_0_0_32:
  "ip_network ''10.0.0.0/32'' False =
     Inr \<lparr>version = IPv4, ip = 167772160, scope_id = None, prefixlen = 32\<rparr>"
  by (simp add: parse_eval)

lemma parse_10_0_0_1_30:
  "ip_network ''10.0.0.1/30'' False =
     Inr \<lparr>version = IPv4, ip = 167772160, scope_id = None, prefixlen = 30\<rparr>"
  by (simp add: parse_eval)

lemma parse_192_168_0_0_24:
  "ip_network ''192.168.0.0/24'' False =
     Inr \<lparr>version = IPv4, ip = 3232235520, scope_id = None, prefixlen = 24\<rparr>"
  by (simp add: parse_eval)

lemma remaining_10_0_0_0_30_without_32:
  "remaining_networks \<lparr>version = IPv4, ip = 167772160, scope_id = None, prefixlen = 30\<rparr>
     (parse_exclusions [''10.0.0.0/32'']) =
   [\<lparr>version = IPv4, ip = 167772162, scope_id = None, prefixlen = 31\<rparr>,
    \<lparr>version = IPv4, ip = 167772161, scope_id = None, prefixlen = 32\<rparr>]"
  by (simp add: script_eval net_eval str_eval parse_eval)

lemma parse_10_0_0_0_31:
  "ip_network ''10.0.0.0/31'' False =
     Inr \<lparr>version = IPv4, ip = 167772160, scope_id = None, prefixlen = 31\<rparr>"
  by (simp add: parse_eval)

lemma parse_16_0_0_0_4:
  "ip_network ''16.0.0.0/4'' False =
     Inr \<lparr>version = IPv4, ip = 268435456, scope_id = None, prefixlen = 4\<rparr>"
  by (simp add: parse_eval)

lemma parse_8_0_0_0_5:
  "ip_network ''8.0.0.0/5'' False =
     Inr \<lparr>version = IPv4, ip = 134217728, scope_id = None, prefixlen = 5\<rparr>"
  by (simp add: parse_eval)

lemma calculate_0_0_0_0_3_without_5:
  "calculate_subnet_cutouts ''0.0.0.0/3'' [''0.0.0.0/5''] = ([''16.0.0.0/4'', ''8.0.0.0/5''], [])"
  by (simp add: script_eval net_eval str_eval parse_eval)

lemma calculate_small_exclusion_first:
  "calculate_subnet_cutouts ''10.0.0.0/30'' [''10.0.0.0/32'', ''10.0.0.0/31''] =
     ([''10.0.0.1/32'', ''10.0.0.2/31''], [])"
  by (simp add: script_eval net_eval str_eval parse_eval)

lemma calculate_large_exclusion_first:
  "calculate_subnet_cutouts ''10.0.0.0/30'' [''10.0.0.0/31'', ''10.0.0.0/32''] =
     ([''10.0.0.2/31''], [])"
  by (simp add: script_eval net_eval str_eval parse_eval)

lemma remaining_small_exclusion_first:
  "remaining_networks \<lparr>version = IPv4, ip = 167772160, scope_id = None, prefixlen = 30\<rparr>
     (parse_exclusions [''10.0.0.0/32'', ''10.0.0.0/31'']) =
   [\<lparr>version = IPv4, ip = 167772162, scope_id = None, prefixlen = 31\<rparr>,
    \<lparr>version = IPv4, ip = 167772161, scope_id = None, prefixlen = 32\<rparr>]"
  by (simp add: script_eval net_eval str_eval parse_eval)

section \<open>The claims\<close>

text \<open>
  Claim C9. Invoked with no network argument (fewer than two entries in \<^verbatim>\<open>sys.argv\<close>),
  the program writes the usage message to the error stream, prints nothing to standard
  output, and exits with status 1.
\<close>

theorem main_without_network_argument:
  "length argv < 2 \<Longrightarrow>
     main stdout_accepts argv = \<lparr>stdout = [], stderr = [Usage_message], exit_status = 1\<rparr>"
  by (simp add: main_def)

theorem main_without_network_argument_witness:
  "length [''subnet-calculator.py''] < 2 \<and>
   main utf8_strict [''subnet-calculator.py''] =
     \<lparr>stdout = [], stderr = [Usage_message], exit_status = 1\<rparr>"
  using main_without_network_argument[of "[''subnet-calculator.py'']" utf8_strict] by simp

text \<open>
  Claim C6, corrected. When the base network string does not parse,
  \<^verbatim>\<open>calculate_subnet_cutouts\<close> returns the one-element list holding the raw input string and
  writes a diagnostic to the error stream. The program then prints that string and exits
  with status 0 if standard output can encode it. If it cannot (a byte of the argument that
  is not well-formed UTF-8, on a standard output that is strict), \<^verbatim>\<open>print\<close> raises
  \<^verbatim>\<open>UnicodeEncodeError\<close>, which nothing catches: nothing is echoed, the traceback follows
  the diagnostic on the error stream, and the exit status is 1.
\<close>

theorem base_parse_failure:
  assumes "ip_network network_str False = Inl e"
  shows "calculate_subnet_cutouts network_str exclusions =
           ([network_str], [Error_calculating_cutouts e]) \<and>
         (stdout_accepts network_str \<longrightarrow>
            main stdout_accepts (prog # network_str # exclusions) =
              \<lparr>stdout = [network_str], stderr = [Error_calculating_cutouts e],
               exit_status = 0\<rparr>) \<and>
         (\<not> stdout_accepts network_str \<longrightarrow>
            main stdout_accepts (prog # network_str # exclusions) =
              \<lparr>stdout = [],
               stderr = [Error_calculating_cutouts e, Traceback UnicodeEncodeError],
               exit_status = 1\<rparr>)"
proof -
  have c: "calculate_subnet_cutouts network_str exs =
      ([network_str], [Error_calculating_cutouts e])" for exs
    using assms by (simp add: calculate_subnet_cutouts_def)
  show ?thesis by (simp add: main_def c)
qed

theorem base_parse_failure_witness:
  "ip_network ''not-an-ip'' False = Inl ValueError \<and>
   calculate_subnet_cutouts ''not-an-ip'' [''192.168.0.0/24''] =
     ([''not-an-ip''], [Error_calculating_cutouts ValueError]) \<and>
   utf8_strict ''not-an-ip'' \<and>
   main utf8_strict [''subnet-calculator.py'', ''not-an-ip'', ''192.168.0.0/24''] =
     \<lparr>stdout = [''not-an-ip''], stderr = [Error_calculating_cutouts ValueError],
      exit_status = 0\<rparr> \<and>
   ip_network [CHR 0xFF] False = Inl ValueError \<and>
   \<not> utf8_strict [CHR 0xFF] \<and>
   main utf8_strict [''subnet-calculator.py'', [CHR 0xFF], ''192.168.0.0/24''] =
     \<lparr>stdout = [],
      stderr = [Error_calculating_cutouts ValueError, Traceback UnicodeEncodeError],
      exit_status = 1\<rparr>"
proof -
  have a: "utf8_strict ''not-an-ip''" by (simp add: utf8_lead_def utf8_tail_def)
  have r: "\<not> utf8_strict [CHR 0xFF]" by (simp add: utf8_lead_def)
  from base_parse_failure[OF parse_not_an_ip, of "[''192.168.0.0/24'']" utf8_strict
      "''subnet-calculator.py''"]
    base_parse_failure[OF parse_byte_ff, of "[''192.168.0.0/24'']" utf8_strict
      "''subnet-calculator.py''"]
    a r parse_not_an_ip parse_byte_ff
  show ?thesis by simp
qed

theorem base_parse_failure_exit_status_1:
  "ip_network [CHR 0xFF] False = Inl ValueError \<and>
   stdout (main utf8_strict [''subnet-calculator.py'', [CHR 0xFF]]) = [] \<and>
   exit_status (main utf8_strict [''subnet-calculator.py'', [CHR 0xFF]]) = 1"
  by (simp add: main_def calculate_subnet_cutouts_def parse_byte_ff utf8_lead_def)

text \<open>
  Claim C7. An exclusion string that does not parse is dropped silently: the result, and
  what is written to the error stream, are those of the same call with that string removed
  from the list; with a base network that parses, nothing is written to the error stream,
  so the computation did not fall back.
\<close>

theorem malformed_exclusion_dropped:
  assumes "ip_network exc False = Inl e"
  shows "calculate_subnet_cutouts network_str (before @ exc # after) =
           calculate_subnet_cutouts network_str (before @ after) \<and>
         (\<forall>main_network. ip_network network_str False = Inr main_network \<longrightarrow>
            snd (calculate_subnet_cutouts network_str (before @ exc # after)) = [])"
proof -
  from assms have eq: "parse_exclusions (before @ exc # after) = parse_exclusions (before @ after)"
    by (simp add: parse_exclusions_append)
  have "calculate_subnet_cutouts network_str (before @ exc # after) =
      calculate_subnet_cutouts network_str (before @ after)"
    unfolding calculate_subnet_cutouts_def eq by (rule refl)
  moreover have "snd (calculate_subnet_cutouts network_str (before @ exc # after)) = []"
    if "ip_network network_str False = Inr main_network" for main_network
    using calculate_parsed[OF that, of "before @ exc # after"] by auto
  ultimately show ?thesis by blast
qed

theorem malformed_exclusion_dropped_witness:
  "ip_network ''garbage'' False = Inl ValueError \<and>
   ip_network ''10.0.0.0/30'' False =
     Inr \<lparr>version = IPv4, ip = 167772160, scope_id = None, prefixlen = 30\<rparr> \<and>
   calculate_subnet_cutouts ''10.0.0.0/30'' ([] @ ''garbage'' # [''10.0.0.0/32'']) =
     calculate_subnet_cutouts ''10.0.0.0/30'' ([] @ [''10.0.0.0/32'']) \<and>
   snd (calculate_subnet_cutouts ''10.0.0.0/30'' ([] @ ''garbage'' # [''10.0.0.0/32''])) = []"
  using malformed_exclusion_dropped[OF parse_garbage, of "''10.0.0.0/30''" "[]" "[''10.0.0.0/32'']"]
    parse_garbage parse_10_0_0_0_30
  by blast

text \<open>
  Claim C4. For a base network string that parses and any list of exclusions, the returned
  list is the sorted text of the remaining networks, and no two entries of the remaining
  networks share an address. Pairwise disjointness is also kept by every pass of the outer
  loop: if the networks of a list are valid and pairwise disjoint, so are those of
  \<^verbatim>\<open>new_remaining\<close> for any exclusion.
\<close>

theorem remaining_networks_disjoint:
  assumes "ip_network network_str False = Inr main_network"
  shows "(\<exists>result.
            traverse str_network (remaining_networks main_network (parse_exclusions exclusions)) =
              Inr result \<and>
            calculate_subnet_cutouts network_str exclusions = (sort result, [])) \<and>
         disjoint_blocks (remaining_networks main_network (parse_exclusions exclusions)) \<and>
         (\<forall>F excluded. (\<forall>a \<in> set F. valid a) \<and> disjoint_blocks F \<longrightarrow>
            disjoint_blocks (new_remaining excluded F))"
proof -
  from assms have "valid main_network" by (rule ip_network_valid)
  then have "frontier_inv main_network (remaining_networks main_network (parse_exclusions exclusions))"
    by (rule frontier_inv_remaining)
  then have "disjoint_blocks (remaining_networks main_network (parse_exclusions exclusions))"
    by (simp add: frontier_inv_def disjoint_blocks_iff)
  moreover have "disjoint_blocks (new_remaining excluded F)"
    if "\<forall>a \<in> set F. valid a" "disjoint_blocks F" for F excluded
    using that new_remaining_disjoint[of F excluded] by (simp add: disjoint_blocks_iff)
  ultimately show ?thesis using calculate_parsed[OF assms, of exclusions] by blast
qed

theorem remaining_networks_disjoint_witness:
  "ip_network ''10.0.0.0/30'' False =
     Inr \<lparr>version = IPv4, ip = 167772160, scope_id = None, prefixlen = 30\<rparr> \<and>
   disjoint_blocks
     (remaining_networks \<lparr>version = IPv4, ip = 167772160, scope_id = None, prefixlen = 30\<rparr>
        (parse_exclusions [''10.0.0.0/32''])) \<and>
   valid \<lparr>version = IPv4, ip = 167772160, scope_id = None, prefixlen = 30\<rparr> \<and>
   disjoint_blocks [\<lparr>version = IPv4, ip = 167772160, scope_id = None, prefixlen = 30\<rparr>] \<and>
   disjoint_blocks
     (new_remaining \<lparr>version = IPv4, ip = 167772160, scope_id = None, prefixlen = 32\<rparr>
        [\<lparr>version = IPv4, ip = 167772160, scope_id = None, prefixlen = 30\<rparr>])"
proof -
  let ?b = "\<lparr>version = IPv4, ip = 167772160, scope_id = None, prefixlen = 30\<rparr>"
  have v: "valid ?b"
    using ip_network_valid[OF parse_10_0_0_0_30] .
  then have v': "\<forall>a \<in> set [?b]. valid a" by simp
  have d: "disjoint_blocks [?b]" by (simp add: disjoint_blocks_def)
  from remaining_networks_disjoint[OF parse_10_0_0_0_30, of "[''10.0.0.0/32'']"] v v' d
    parse_10_0_0_0_30
  show ?thesis by blast
qed

text \<open>
  Claim C5. For a base network string that parses and any list of exclusions, no two of the
  remaining networks (whose sorted text is returned) are siblings: none has the prefix length
  of another with an address that differs from the other's in just the lowest bit of the
  prefix.
\<close>

theorem remaining_networks_no_siblings:
  assumes "ip_network network_str False = Inr main_network"
  shows "(\<exists>result.
            traverse str_network (remaining_networks main_network (parse_exclusions exclusions)) =
              Inr result \<and>
            calculate_subnet_cutouts network_str exclusions = (sort result, [])) \<and>
         (\<forall>a \<in> set (remaining_networks main_network (parse_exclusions exclusions)).
          \<forall>b \<in> set (remaining_networks main_network (parse_exclusions exclusions)).
            \<not> siblings a b)"
proof -
  let ?R = "remaining_networks main_network (parse_exclusions exclusions)"
  from assms have "valid main_network" by (rule ip_network_valid)
  then have inv: "frontier_inv main_network ?R"
    by (rule frontier_inv_remaining)
  have "\<not> siblings a b" if "a \<in> set ?R" "b \<in> set ?R" for a b
  proof
    assume "siblings a b"
    with inv that(1) have "\<not> addresses b \<subseteq> \<Union> (addresses ` set ?R)"
      by (simp add: frontier_inv_def)
    with that(2) show False by blast
  qed
  then show ?thesis using calculate_parsed[OF assms, of exclusions] by blast
qed

theorem remaining_networks_no_siblings_witness:
  "ip_network ''10.0.0.0/30'' False =
     Inr \<lparr>version = IPv4, ip = 167772160, scope_id = None, prefixlen = 30\<rparr> \<and>
   \<lparr>version = IPv4, ip = 167772162, scope_id = None, prefixlen = 31\<rparr> \<in>
     set (remaining_networks
            \<lparr>version = IPv4, ip = 167772160, scope_id = None, prefixlen = 30\<rparr>
            (parse_exclusions [''10.0.0.0/32''])) \<and>
   \<lparr>version = IPv4, ip = 167772161, scope_id = None, prefixlen = 32\<rparr> \<in>
     set (remaining_networks
            \<lparr>version = IPv4, ip = 167772160, scope_id = None, prefixlen = 30\<rparr>
            (parse_exclusions [''10.0.0.0/32''])) \<and>
   \<not> siblings \<lparr>version = IPv4, ip = 167772162, scope_id = None, prefixlen = 31\<rparr>
     \<lparr>version = IPv4, ip = 167772161, scope_id = None, prefixlen = 32\<rparr>"
proof -
  let ?R = "remaining_networks
              \<lparr>version = IPv4, ip = 167772160, scope_id = None, prefixlen = 30\<rparr>
              (parse_exclusions [''10.0.0.0/32''])"
  have m: "\<lparr>version = IPv4, ip = 167772162, scope_id = None, prefixlen = 31\<rparr> \<in> set ?R"
    "\<lparr>version = IPv4, ip = 167772161, scope_id = None, prefixlen = 32\<rparr> \<in> set ?R"
    unfolding remaining_10_0_0_0_30_without_32 by simp_all
  with remaining_networks_no_siblings[OF parse_10_0_0_0_30, of "[''10.0.0.0/32'']"]
    parse_10_0_0_0_30
  show ?thesis by blast
qed

text \<open>
  Claim C8. A remaining network is kept unchanged by an exclusion whose addresses are not all
  inside it, or whose containment test raises (networks of different families). In
  particular, an exclusion that parses and shares no address with the base network, or is of
  the other family, never changes what \<^verbatim>\<open>calculate_subnet_cutouts\<close> returns, wherever it
  stands in the list.
\<close>

theorem exclusion_not_contained:
  assumes "ip_network network_str False = Inr main_network"
    and "ip_network exc False = Inr excluded"
    and "addresses excluded \<inter> addresses main_network = {} \<or>
         version excluded \<noteq> version main_network"
  shows "(\<forall>network excluded'.
            \<not> addresses excluded' \<subseteq> addresses network \<or> (\<exists>e. subnet_of excluded' network = Inl e) \<longrightarrow>
            cut_network excluded' network = [network]) \<and>
         calculate_subnet_cutouts network_str (before @ exc # after) =
           calculate_subnet_cutouts network_str (before @ after)"
proof -
  let ?F = "remaining_networks main_network (parse_exclusions before)"
  from assms(1) have "valid main_network" by (rule ip_network_valid)
  then have inv: "frontier_inv main_network ?F" by (rule frontier_inv_remaining)
  have "\<not> addresses excluded \<subseteq> addresses a \<or> (\<exists>e. subnet_of excluded a = Inl e)"
    if "a \<in> set ?F" for a
  proof (cases "version excluded = version main_network")
    case True
    with assms(3) have dis: "addresses excluded \<inter> addresses main_network = {}" by simp
    from inv that have "addresses a \<subseteq> addresses main_network"
      by (simp add: frontier_inv_def)
    with dis addresses_nonempty[of excluded] show ?thesis by auto
  next
    case False
    moreover from inv that have "version a = version main_network"
      by (simp add: frontier_inv_def)
    ultimately show ?thesis by (simp add: subnet_of_def)
  qed
  then have "new_remaining excluded ?F = ?F"
    by (intro new_remaining_unchanged) simp
  then have "remaining_networks main_network (parse_exclusions (before @ exc # after)) =
      remaining_networks main_network (parse_exclusions (before @ after))"
    using assms(2) by (simp add: parse_exclusions_append remaining_networks_append)
  then have "calculate_subnet_cutouts network_str (before @ exc # after) =
      calculate_subnet_cutouts network_str (before @ after)"
    using assms(1) by (simp add: calculate_subnet_cutouts_def)
  then show ?thesis by (simp add: cut_network_unchanged)
qed

theorem exclusion_not_contained_witness:
  "ip_network ''10.0.0.0/30'' False =
     Inr \<lparr>version = IPv4, ip = 167772160, scope_id = None, prefixlen = 30\<rparr> \<and>
   ip_network ''192.168.0.0/24'' False =
     Inr \<lparr>version = IPv4, ip = 3232235520, scope_id = None, prefixlen = 24\<rparr> \<and>
   addresses \<lparr>version = IPv4, ip = 3232235520, scope_id = None, prefixlen = 24\<rparr> \<inter>
     addresses \<lparr>version = IPv4, ip = 167772160, scope_id = None, prefixlen = 30\<rparr> = {} \<and>
   \<not> addresses \<lparr>version = IPv4, ip = 3232235520, scope_id = None, prefixlen = 24\<rparr> \<subseteq>
     addresses \<lparr>version = IPv4, ip = 167772160, scope_id = None, prefixlen = 30\<rparr> \<and>
   cut_network \<lparr>version = IPv4, ip = 3232235520, scope_id = None, prefixlen = 24\<rparr>
     \<lparr>version = IPv4, ip = 167772160, scope_id = None, prefixlen = 30\<rparr> =
     [\<lparr>version = IPv4, ip = 167772160, scope_id = None, prefixlen = 30\<rparr>] \<and>
   calculate_subnet_cutouts ''10.0.0.0/30'' ([''10.0.0.0/32''] @ ''192.168.0.0/24'' # []) =
     calculate_subnet_cutouts ''10.0.0.0/30'' ([''10.0.0.0/32''] @ [])"
proof -
  let ?b = "\<lparr>version = IPv4, ip = 167772160, scope_id = None, prefixlen = 30\<rparr>"
  let ?e = "\<lparr>version = IPv4, ip = 3232235520, scope_id = None, prefixlen = 24\<rparr>"
  have ab: "addresses ?b = {167772160 ..< 167772164}"
    using addresses_eval[OF ip_network_valid[OF parse_10_0_0_0_30]]
    by (simp add: max_prefixlen_def)
  have ae: "addresses ?e = {3232235520 ..< 3232235776}"
    using addresses_eval[OF ip_network_valid[OF parse_192_168_0_0_24]]
    by (simp add: max_prefixlen_def)
  have dis: "addresses ?e \<inter> addresses ?b = {}" unfolding ab ae by simp
  have ns: "\<not> addresses ?e \<subseteq> addresses ?b" unfolding ab ae by simp
  from dis have h: "addresses ?e \<inter> addresses ?b = {} \<or> version ?e \<noteq> version ?b" ..
  from exclusion_not_contained[OF parse_10_0_0_0_30 parse_192_168_0_0_24 h,
      of "[''10.0.0.0/32'']" "[]"] ns dis parse_10_0_0_0_30 parse_192_168_0_0_24
  show ?thesis by blast
qed

text \<open>
  Claim C10. An exclusion equal to a remaining network removes that network and puts nothing
  in its place. In particular, when the base string and the only exclusion string denote the
  same network, \<^verbatim>\<open>calculate_subnet_cutouts\<close> returns the empty list and the program
  prints no line (and exits with status 0).
\<close>

theorem exclusion_equal_to_block:
  assumes "ip_network network_str False = Inr main_network"
    and "ip_network exc False = Inr main_network"
  shows "(\<forall>network excluded. network_eq excluded network \<longrightarrow> cut_network excluded network = []) \<and>
         calculate_subnet_cutouts network_str [exc] = ([], []) \<and>
         main stdout_accepts [prog, network_str, exc] =
           \<lparr>stdout = [], stderr = [], exit_status = 0\<rparr>"
proof -
  have "remaining_networks main_network (parse_exclusions [exc]) = []"
    using assms(2)
    by (simp add: remaining_networks_def new_remaining_def cut_network_equal network_eq_refl)
  with assms(1) have c: "calculate_subnet_cutouts network_str [exc] = ([], [])"
    by (simp add: calculate_subnet_cutouts_def)
  then have "main stdout_accepts [prog, network_str, exc] =
      \<lparr>stdout = [], stderr = [], exit_status = 0\<rparr>"
    by (simp add: main_def)
  with c show ?thesis by (simp add: cut_network_equal)
qed

theorem exclusion_equal_to_block_witness:
  "ip_network ''10.0.0.0/30'' False =
     Inr \<lparr>version = IPv4, ip = 167772160, scope_id = None, prefixlen = 30\<rparr> \<and>
   ip_network ''10.0.0.1/30'' False =
     Inr \<lparr>version = IPv4, ip = 167772160, scope_id = None, prefixlen = 30\<rparr> \<and>
   network_eq \<lparr>version = IPv4, ip = 167772160, scope_id = None, prefixlen = 30\<rparr>
     \<lparr>version = IPv4, ip = 167772160, scope_id = None, prefixlen = 30\<rparr> \<and>
   cut_network \<lparr>version = IPv4, ip = 167772160, scope_id = None, prefixlen = 30\<rparr>
     \<lparr>version = IPv4, ip = 167772160, scope_id = None, prefixlen = 30\<rparr> = [] \<and>
   calculate_subnet_cutouts ''10.0.0.0/30'' [''10.0.0.1/30''] = ([], []) \<and>
   main utf8_strict [''subnet-calculator.py'', ''10.0.0.0/30'', ''10.0.0.1/30''] =
     \<lparr>stdout = [], stderr = [], exit_status = 0\<rparr>"
  using exclusion_equal_to_block[OF parse_10_0_0_0_30 parse_10_0_0_1_30,
      of utf8_strict "''subnet-calculator.py''"]
    parse_10_0_0_0_30 parse_10_0_0_1_30 network_eq_refl
  by blast

text \<open>
  Claim C2, corrected. The specification has the returned list sorted by numeric address and
  then by prefix length. The script sorts the texts of the networks (\<^verbatim>\<open>result.sort()\<close> on
  strings), so what holds for every base string and every list of exclusions, in whatever
  order, is that the returned list ascends in the order of strings (character by character,
  by code point). For \<^verbatim>\<open>0.0.0.0/3\<close> without \<^verbatim>\<open>0.0.0.0/5\<close> it returns
  \<^verbatim>\<open>16.0.0.0/4\<close> before \<^verbatim>\<open>8.0.0.0/5\<close>, which is not the order of the addresses.
\<close>

theorem result_sorted_as_strings:
  "sorted (fst (calculate_subnet_cutouts network_str exclusions))"
  by (simp add: calculate_subnet_cutouts_def split: sum.splits)

theorem result_sorted_as_strings_witness:
  "sorted (fst (calculate_subnet_cutouts ''0.0.0.0/3'' [''0.0.0.0/5''])) \<and>
   fst (calculate_subnet_cutouts ''0.0.0.0/3'' [''0.0.0.0/5'']) = [''16.0.0.0/4'', ''8.0.0.0/5'']"
  using result_sorted_as_strings[of "''0.0.0.0/3''" "[''0.0.0.0/5'']"]
  by (simp add: calculate_0_0_0_0_3_without_5)

theorem result_not_sorted_by_address:
  "\<not> sorted_by_address (fst (calculate_subnet_cutouts ''0.0.0.0/3'' [''0.0.0.0/5'']))"
  by (simp add: calculate_0_0_0_0_3_without_5 sorted_by_address_def parse_16_0_0_0_4
        parse_8_0_0_0_5 address_order_def)

text \<open>
  Claim C1, on the input where the script departs from it. The script is to return cutouts
  that avoid the exclusions. For the base \<^verbatim>\<open>10.0.0.0/30\<close> and the exclusions
  \<^verbatim>\<open>10.0.0.0/32\<close>, \<^verbatim>\<open>10.0.0.0/31\<close> in this order, the second exclusion is a subnet of
  none of the networks that remain after the first (it contains \<^verbatim>\<open>10.0.0.1/32\<close>), so the
  script keeps \<^verbatim>\<open>10.0.0.1/32\<close>: the result covers the address \<^verbatim>\<open>10.0.0.1\<close> of an
  exclusion that lies inside the base, and coverage fails.
\<close>

theorem coverage_fails_small_exclusion_first:
  "ip_network ''10.0.0.0/30'' False =
     Inr \<lparr>version = IPv4, ip = 167772160, scope_id = None, prefixlen = 30\<rparr> \<and>
   calculate_subnet_cutouts ''10.0.0.0/30'' [''10.0.0.0/32'', ''10.0.0.0/31''] =
     ([''10.0.0.1/32'', ''10.0.0.2/31''], []) \<and>
   \<not> covers \<lparr>version = IPv4, ip = 167772160, scope_id = None, prefixlen = 30\<rparr>
       (parse_exclusions [''10.0.0.0/32'', ''10.0.0.0/31''])
       (remaining_networks \<lparr>version = IPv4, ip = 167772160, scope_id = None, prefixlen = 30\<rparr>
          (parse_exclusions [''10.0.0.0/32'', ''10.0.0.0/31'']))"
proof -
  let ?b = "\<lparr>version = IPv4, ip = 167772160, scope_id = None, prefixlen = 30\<rparr>"
  let ?e = "\<lparr>version = IPv4, ip = 167772160, scope_id = None, prefixlen = 31\<rparr>"
  let ?r = "\<lparr>version = IPv4, ip = 167772161, scope_id = None, prefixlen = 32\<rparr>"
  have ab: "addresses ?b = {167772160 ..< 167772164}"
    using addresses_eval[OF ip_network_valid[OF parse_10_0_0_0_30]]
    by (simp add: max_prefixlen_def)
  have ae: "addresses ?e = {167772160 ..< 167772162}"
    using addresses_eval[OF ip_network_valid[OF parse_10_0_0_0_31]]
    by (simp add: max_prefixlen_def)
  have ar: "167772161 \<in> addresses ?r"
    using addresses_nonempty[of ?r] by simp
  have pe: "?e \<in> set (parse_exclusions [''10.0.0.0/32'', ''10.0.0.0/31''])"
    by (simp add: parse_10_0_0_0_32 parse_10_0_0_0_31)
  have left: "167772161 \<in> \<Union> (addresses ` set (remaining_networks ?b
      (parse_exclusions [''10.0.0.0/32'', ''10.0.0.0/31''])))"
    unfolding remaining_small_exclusion_first using ar by simp
  have "167772161 \<in> addresses ?e" "addresses ?e \<subseteq> addresses ?b" "version ?e = version ?b"
    unfolding ab ae by simp_all
  with pe have right: "167772161 \<notin> addresses ?b -
      \<Union> (addresses ` {e \<in> set (parse_exclusions [''10.0.0.0/32'', ''10.0.0.0/31'']).
                          version e = version ?b \<and> addresses e \<subseteq> addresses ?b})"
    by blast
  from left right have "\<not> covers ?b (parse_exclusions [''10.0.0.0/32'', ''10.0.0.0/31''])
      (remaining_networks ?b (parse_exclusions [''10.0.0.0/32'', ''10.0.0.0/31'']))"
    unfolding covers_def by metis
  with parse_10_0_0_0_30 calculate_small_exclusion_first show ?thesis by blast
qed

text \<open>
  Claim C3, on the input where the script departs from it. For the base \<^verbatim>\<open>10.0.0.0/30\<close>
  the exclusions \<^verbatim>\<open>10.0.0.0/32\<close>, \<^verbatim>\<open>10.0.0.0/31\<close> leave two networks, and the same
  exclusions in the other order leave one: the returned lists differ as sets.
\<close>

theorem result_depends_on_exclusion_order:
  "calculate_subnet_cutouts ''10.0.0.0/30'' [''10.0.0.0/32'', ''10.0.0.0/31''] =
     ([''10.0.0.1/32'', ''10.0.0.2/31''], []) \<and>
   calculate_subnet_cutouts ''10.0.0.0/30'' [''10.0.0.0/31'', ''10.0.0.0/32''] =
     ([''10.0.0.2/31''], []) \<and>
   set (fst (calculate_subnet_cutouts ''10.0.0.0/30'' [''10.0.0.0/32'', ''10.0.0.0/31''])) \<noteq>
   set (fst (calculate_subnet_cutouts ''10.0.0.0/30'' [''10.0.0.0/31'', ''10.0.0.0/32'']))"
  by (simp add: calculate_small_exclusion_first calculate_large_exclusion_first)

end
